theory Spec2Isabelle
  imports Main "HOL-Library.Word"
begin

section \<open>MyVault: authentication and progressive lockout (src/main.py)\<close>

text \<open>
  A shallow embedding of the authentication core of \<^verbatim>\<open>src/main.py\<close>: the keyed hash of the
  passkey and of the recovery answer, the lockout helpers of \<^verbatim>\<open>MyVaultApp\<close>, and the
  handlers of the login verification page.

  Conventions of the model.
  \<^item> A Python \<^verbatim>\<open>str\<close> is a \<^typ>\<open>string\<close>; each \<^typ>\<open>char\<close> stands for one code point
    below 256, so \<^verbatim>\<open>len\<close> is \<^const>\<open>length\<close>.
  \<^item> \<^verbatim>\<open>datetime.now()\<close> is an argument \<open>now\<close> of the function that reads the clock; a
    \<^verbatim>\<open>datetime\<close> is a number of microseconds (the resolution of the Python type).
  \<^item> \<^verbatim>\<open>secrets.token_hex(16)\<close> is an argument \<open>new_salt\<close> of the function that draws it.
  \<^item> \<^verbatim>\<open>hmac.new(key, msg, hashlib.sha256)\<close> is library code; its 32-byte digest is an
    argument \<open>hm\<close> of type \<open>string \<Rightarrow> string \<Rightarrow> 256 word\<close> (key, then message).
  \<^item> \<^verbatim>\<open>is_mobile()\<close> is an argument \<open>mobile\<close>.
  \<^item> The shelve file behind \<^verbatim>\<open>StorageBox('auth')\<close> is a record of optional values, one
    field per key the program uses; \<open>None\<close> is a missing key (or a stored Python
    \<^verbatim>\<open>None\<close>), and storage never fails.
\<close>

subsection \<open>Security constants (lines 98-102)\<close>

definition MAX_ATTEMPTS :: nat where
  "MAX_ATTEMPTS = 3"

definition LOCKOUT_BASE_TIME :: nat where
  "LOCKOUT_BASE_TIME = 60"

definition LOCKOUT_MULTIPLIER :: nat where
  "LOCKOUT_MULTIPLIER = 2"

definition MAX_LOCKOUT_TIME :: nat where
  "MAX_LOCKOUT_TIME = 3600"

subsection \<open>The string methods the handlers call\<close>

text \<open>
  \<^verbatim>\<open>str.isspace\<close> on one code point below 256: U+0009..U+000D, U+001C..U+0020, U+0085 and
  U+00A0.
\<close>

definition isspace :: "char \<Rightarrow> bool" where
  "isspace c =
     (let n = (of_char c :: nat)
      in (9 \<le> n \<and> n \<le> 13) \<or> (28 \<le> n \<and> n \<le> 32) \<or> n = 133 \<or> n = 160)"

text \<open>\<^verbatim>\<open>s.strip()\<close>: leading and trailing whitespace removed.\<close>

definition strip :: "string \<Rightarrow> string" where
  "strip s = rev (dropWhile isspace (rev (dropWhile isspace s)))"

text \<open>
  \<^verbatim>\<open>str.lower\<close> on one code point below 256: A..Z and the upper-case letters U+00C0..U+00DE
  (but not the multiplication sign U+00D7) move up by 32.
\<close>

definition lower_char :: "char \<Rightarrow> char" where
  "lower_char c =
     (let n = (of_char c :: nat)
      in if (65 \<le> n \<and> n \<le> 90) \<or> (192 \<le> n \<and> n \<le> 222 \<and> n \<noteq> 215)
         then char_of (n + 32) else c)"

definition lower :: "string \<Rightarrow> string" where
  "lower s = map lower_char s"

subsection \<open>Passkey hashing (lines 906-908)\<close>

text \<open>\<^verbatim>\<open>hexdigest()\<close>: the 64 lower-case hexadecimal digits of a 32-byte digest.\<close>

definition hexdigit :: "nat \<Rightarrow> char" where
  "hexdigit n = ''0123456789abcdef'' ! n"

definition nibble :: "256 word \<Rightarrow> nat \<Rightarrow> nat" where
  "nibble w k = unat (take_bit 4 (drop_bit (4 * k) w))"

definition hexdigest :: "256 word \<Rightarrow> string" where
  "hexdigest w = map (\<lambda>i. hexdigit (nibble w (63 - i))) [0..<64]"

type_synonym hmac_sha256 = "string \<Rightarrow> string \<Rightarrow> 256 word"

text \<open>
  \<^verbatim>\<open>def _hash_passkey(passkey, salt):
      return hmac.new(salt.encode(), passkey.encode(), hashlib.sha256).hexdigest()\<close>
\<close>

definition hash_passkey :: "hmac_sha256 \<Rightarrow> string \<Rightarrow> string \<Rightarrow> string" where
  "hash_passkey hm passkey salt = hexdigest (hm salt passkey)"

text \<open>\<^verbatim>\<open>hmac.compare_digest\<close> on two strings: equality (in constant time).\<close>

definition compare_digest :: "string \<Rightarrow> string \<Rightarrow> bool" where
  "compare_digest a b = (a = b)"

subsection \<open>The persistent store and the application object\<close>

type_synonym datetime = int

record auth_store =
  k_salt :: "string option"
  k_pass_hash :: "string option"
  k_secret_question :: "string option"
  k_secret_answer_hash :: "string option"
  k_secret_answer_salt :: "string option"
  k_failed_attempts :: "nat option"
  k_lockout_until :: "datetime option"
  k_lockout_count :: "nat option"

text \<open>\<^verbatim>\<open>StorageBox.clear_all\<close>: every key is removed.\<close>

definition clear_all :: "auth_store" where
  "clear_all =
     \<lparr>k_salt = None, k_pass_hash = None, k_secret_question = None,
      k_secret_answer_hash = None, k_secret_answer_salt = None,
      k_failed_attempts = None, k_lockout_until = None, k_lockout_count = None\<rparr>"

text \<open>\<^verbatim>\<open>StorageBox.get(key, defaultValue)\<close> on an optional field.\<close>

definition get_or :: "'a option \<Rightarrow> 'a \<Rightarrow> 'a" where
  "get_or v d = (case v of None \<Rightarrow> d | Some x \<Rightarrow> x)"

datatype factor = Passkey | Voice | Face | Fingerprint

datatype page =
  NoPage | SetupStep1 | SetupStep2 | SetupStep3 | VerificationPage | LockoutPage | VaultPage

datatype notice =
  NoNotice | WrongPass int | BiometricFail | BiometricUnavailable

text \<open>
  The local variables of one call of \<^verbatim>\<open>_build_verification_page\<close> that its handlers
  close over: the dictionary \<^verbatim>\<open>verified\<close>, the cell \<^verbatim>\<open>current_step\<close> and the text
  of \<^verbatim>\<open>err_text\<close>.
\<close>

record mfa_session =
  verified :: "factor \<Rightarrow> bool"
  current_step :: nat
  err_text :: notice

text \<open>\<^verbatim>\<open>self._setup_data\<close>, a dictionary with the keys the first two setup steps write.\<close>

record setup_dict =
  sd_passkey :: "string option"
  sd_question :: "string option"
  sd_answer :: "string option"

definition empty_setup_data :: setup_dict where
  "empty_setup_data = \<lparr>sd_passkey = None, sd_question = None, sd_answer = None\<rparr>"

record app =
  failed_attempts :: nat
  lockout_until :: "datetime option"
  lockout_count :: nat
  auth :: auth_store
  setup_data :: setup_dict
  page :: page
  session :: mfa_session

subsection \<open>Passkey and secret-question helpers (lines 1170-1198)\<close>

definition has_passkey :: "app \<Rightarrow> bool" where
  "has_passkey a = (case k_pass_hash (auth a) of None \<Rightarrow> False | Some h \<Rightarrow> h \<noteq> [])"

definition verify_passkey :: "hmac_sha256 \<Rightarrow> string \<Rightarrow> app \<Rightarrow> bool" where
  "verify_passkey hm passkey a =
     (let salt = get_or (k_salt (auth a)) [];
          pass_hash = get_or (k_pass_hash (auth a)) []
      in compare_digest (hash_passkey hm passkey salt) pass_hash)"

definition save_passkey :: "hmac_sha256 \<Rightarrow> string \<Rightarrow> string \<Rightarrow> app \<Rightarrow> app" where
  "save_passkey hm new_salt passkey a =
     (let salt = new_salt;
          a1 = a\<lparr>auth := (auth a)\<lparr>k_salt := Some salt\<rparr>\<rparr>
      in a1\<lparr>auth := (auth a1)\<lparr>k_pass_hash := Some (hash_passkey hm passkey salt)\<rparr>\<rparr>)"

definition has_secret_question :: "app \<Rightarrow> bool" where
  "has_secret_question a =
     (case k_secret_question (auth a) of None \<Rightarrow> False | Some q \<Rightarrow> q \<noteq> [])"

definition save_secret_question ::
  "hmac_sha256 \<Rightarrow> string \<Rightarrow> string \<Rightarrow> string \<Rightarrow> app \<Rightarrow> app" where
  "save_secret_question hm new_salt question_key answer a =
     (let answer_salt = new_salt;
          answer_hash = hash_passkey hm (lower (strip answer)) answer_salt
      in a\<lparr>auth := (auth a)\<lparr>k_secret_question := Some question_key,
                               k_secret_answer_hash := Some answer_hash,
                               k_secret_answer_salt := Some answer_salt\<rparr>\<rparr>)"

definition verify_secret_answer :: "hmac_sha256 \<Rightarrow> string \<Rightarrow> app \<Rightarrow> bool" where
  "verify_secret_answer hm answer a =
     (let stored_hash = get_or (k_secret_answer_hash (auth a)) [];
          salt = get_or (k_secret_answer_salt (auth a)) []
      in compare_digest (hash_passkey hm (lower (strip answer)) salt) stored_hash)"

subsection \<open>Lockout helpers (lines 1200-1233)\<close>

text \<open>
  \<^verbatim>\<open>_is_locked_out\<close> first loads \<^verbatim>\<open>self._lockout_until\<close> from the store when the field
  is \<^verbatim>\<open>None\<close> and the store holds a value (what \<^verbatim>\<open>isoformat\<close> wrote,
  \<^verbatim>\<open>fromisoformat\<close> reads back), then compares with the clock. It returns its answer and
  the application object, whose field it may have set.
\<close>

definition is_locked_out :: "datetime \<Rightarrow> app \<Rightarrow> bool \<times> app" where
  "is_locked_out now a =
     (let a1 = (if lockout_until a = None
                then (case k_lockout_until (auth a) of
                        Some lockout_data \<Rightarrow> a\<lparr>lockout_until := Some lockout_data\<rparr>
                      | None \<Rightarrow> a)
                else a)
      in (case lockout_until a1 of
            Some u \<Rightarrow> (now < u, a1)
          | None \<Rightarrow> (False, a1)))"

text \<open>
  \<^verbatim>\<open>int(td.total_seconds())\<close>: the whole seconds of a difference of microseconds, rounded
  towards zero. (\<^verbatim>\<open>total_seconds\<close> returns a float; for differences of less than a
  century its error is far below a microsecond, so the integer part is the exact one.)
\<close>

definition whole_seconds :: "int \<Rightarrow> int" where
  "whole_seconds d = (if d < 0 then - ((- d) div 1000000) else d div 1000000)"

definition get_lockout_remaining :: "datetime \<Rightarrow> app \<Rightarrow> int" where
  "get_lockout_remaining now a =
     (case lockout_until a of
        Some u \<Rightarrow> (let remaining = u - now in max 0 (whole_seconds remaining))
      | None \<Rightarrow> 0)"

text \<open>\<^verbatim>\<open>timedelta(seconds=n)\<close> in microseconds.\<close>

definition timedelta_seconds :: "nat \<Rightarrow> int" where
  "timedelta_seconds n = int n * 1000000"

text \<open>
  \<^verbatim>\<open>min(LOCKOUT_BASE_TIME * (LOCKOUT_MULTIPLIER ** (self._lockout_count - 1)), MAX_LOCKOUT_TIME)\<close>
  for a count that is at least one (the count is a stored natural number plus one).
\<close>

definition lockout_time :: "nat \<Rightarrow> nat" where
  "lockout_time count =
     min (LOCKOUT_BASE_TIME * (LOCKOUT_MULTIPLIER ^ (count - 1))) MAX_LOCKOUT_TIME"

definition apply_lockout :: "datetime \<Rightarrow> app \<Rightarrow> app" where
  "apply_lockout now a =
     (let count = get_or (k_lockout_count (auth a)) 0 + 1;
          a1 = a\<lparr>lockout_count := count\<rparr>;
          a2 = a1\<lparr>auth := (auth a1)\<lparr>k_lockout_count := Some count\<rparr>\<rparr>;
          until = now + timedelta_seconds (lockout_time count);
          a3 = a2\<lparr>lockout_until := Some until\<rparr>;
          a4 = a3\<lparr>auth := (auth a3)\<lparr>k_lockout_until := Some until\<rparr>\<rparr>;
          a5 = a4\<lparr>failed_attempts := 0\<rparr>
      in a5\<lparr>auth := (auth a5)\<lparr>k_failed_attempts := Some 0\<rparr>\<rparr>)"

text \<open>
  \<^verbatim>\<open>def _clear_lockout(self):
      self._lockout_until = None
      self._lockout_count = 0
      self.auth.put('lockout_until', None)
      self.auth.put('lockout_count', 0)
      self.auth.put('failed_attempts', 0)\<close>
  The field \<^verbatim>\<open>self._failed_attempts\<close> is not assigned.
\<close>

definition clear_lockout :: "app \<Rightarrow> app" where
  "clear_lockout a =
     a\<lparr>lockout_until := None,
       lockout_count := 0,
       auth := (auth a)\<lparr>k_lockout_until := None,
                         k_lockout_count := Some 0,
                         k_failed_attempts := Some 0\<rparr>\<rparr>"

subsection \<open>The verification page and the lockout page (lines 1946-1950, 2219-2265)\<close>

definition new_session :: mfa_session where
  "new_session = \<lparr>verified = (\<lambda>_. False), current_step = 0, err_text = NoNotice\<rparr>"

text \<open>
  \<^verbatim>\<open>_build_verification_page\<close> shows the lockout page when the vault is locked, and
  otherwise opens a session with no factor verified. \<^verbatim>\<open>_build_lockout_page\<close> shows the
  page and calls \<^verbatim>\<open>update_countdown\<close> once; the timer calls it again every second.
  \<^verbatim>\<open>update_countdown\<close> clears the lockout and builds the verification page when no
  whole second remains. All clock reads of one call see the same \<open>now\<close>.
\<close>

function build_verification_page :: "datetime \<Rightarrow> app \<Rightarrow> app"
  and build_lockout_page :: "datetime \<Rightarrow> app \<Rightarrow> app"
  and update_countdown :: "datetime \<Rightarrow> app \<Rightarrow> app" where
  "build_verification_page now a =
     (if fst (is_locked_out now a)
      then build_lockout_page now (snd (is_locked_out now a))
      else (snd (is_locked_out now a))\<lparr>page := VerificationPage, session := new_session\<rparr>)"
| "build_lockout_page now a = update_countdown now (a\<lparr>page := LockoutPage\<rparr>)"
| "update_countdown now a =
     (let remaining = get_lockout_remaining now a
      in if remaining > 0 then a
         else build_verification_page now (clear_lockout a))"
  by pat_completeness auto
termination
proof (relation "measure (\<lambda>x. case x of
          Inl (now, a) \<Rightarrow> (if fst (is_locked_out now a) then 3 else 0)
        | Inr (Inl (now, a)) \<Rightarrow> 2
        | Inr (Inr (now, a)) \<Rightarrow> 1)")
  show "wf (measure (\<lambda>x. case x of
          Inl (now, a) \<Rightarrow> (if fst (is_locked_out now a) then 3 else 0)
        | Inr (Inl (now, a)) \<Rightarrow> 2
        | Inr (Inr (now, a)) \<Rightarrow> (1::nat)))"
    by simp
qed (simp_all add: is_locked_out_def clear_lockout_def)

declare build_verification_page.simps [simp del]
declare build_lockout_page.simps [simp del]
declare update_countdown.simps [simp del]

subsection \<open>Handlers of the verification page (lines 1995-2128)\<close>

text \<open>\<^verbatim>\<open>_build_page\<close> shows the vault.\<close>

definition build_page :: "app \<Rightarrow> app" where
  "build_page a = a\<lparr>page := VaultPage\<rparr>"

text \<open>\<^verbatim>\<open>verified[f] = True\<close>.\<close>

definition set_verified :: "factor \<Rightarrow> app \<Rightarrow> app" where
  "set_verified f a = a\<lparr>session := (session a)\<lparr>verified := (verified (session a))(f := True)\<rparr>\<rparr>"

definition set_err_text :: "notice \<Rightarrow> app \<Rightarrow> app" where
  "set_err_text n a = a\<lparr>session := (session a)\<lparr>err_text := n\<rparr>\<rparr>"

definition check_complete :: "bool \<Rightarrow> app \<Rightarrow> app" where
  "check_complete mobile a =
     (let v = verified (session a);
          all_ok = (v Passkey \<and> v Voice \<and> v Face);
          all_ok = (if mobile then all_ok \<and> v Fingerprint else all_ok)
      in if all_ok then build_page a else a)"

text \<open>
  \<^verbatim>\<open>_next_step\<close>: the step counter goes up by one, \<^verbatim>\<open>_update_content\<close> shows the
  controls of that step (it writes no field), and \<^verbatim>\<open>_check_complete\<close> runs.
\<close>

definition next_step :: "bool \<Rightarrow> app \<Rightarrow> app" where
  "next_step mobile a =
     check_complete mobile
       (a\<lparr>session := (session a)\<lparr>current_step := current_step (session a) + 1\<rparr>\<rparr>)"

text \<open>The handler \<^verbatim>\<open>_verify_passkey\<close> of the verification page; \<open>v\<close> is \<^verbatim>\<open>pass_f.value\<close>.\<close>

definition login_verify_passkey ::
  "hmac_sha256 \<Rightarrow> bool \<Rightarrow> datetime \<Rightarrow> string \<Rightarrow> app \<Rightarrow> app" where
  "login_verify_passkey hm mobile now v a =
     (if failed_attempts a \<ge> MAX_ATTEMPTS
      then build_lockout_page now (apply_lockout now a)
      else if verify_passkey hm (strip v) a
      then (let a1 = set_verified Passkey a;
                a2 = a1\<lparr>failed_attempts := 0\<rparr>;
                a3 = a2\<lparr>auth := (auth a2)\<lparr>k_failed_attempts := Some 0\<rparr>\<rparr>;
                a4 = set_err_text NoNotice a3
            in next_step mobile a4)
      else (let a1 = a\<lparr>failed_attempts := failed_attempts a + 1\<rparr>;
                a2 = a1\<lparr>auth := (auth a1)\<lparr>k_failed_attempts := Some (failed_attempts a1)\<rparr>\<rparr>;
                left = int MAX_ATTEMPTS - int (failed_attempts a2)
            in if left \<le> 0
               then build_lockout_page now (apply_lockout now a2)
               else set_err_text (WrongPass left) a2))"

text \<open>
  What the voice and face handlers do to the screen, in order. Each event but the
  sleep stands for the assignments named here and the \<^verbatim>\<open>page.update()\<close> after them.
  \<^item> \<open>Verifying\<close>: the handler itself, before it starts the thread, sets
    \<^verbatim>\<open>status_text\<close> to the text of \<^verbatim>\<open>verifying\<close>.
  \<^item> \<open>Display key line\<close>: one step of the script sets \<^verbatim>\<open>direction_icon\<close> and
    \<^verbatim>\<open>direction_text\<close> (the text of \<open>key\<close>) and \<^verbatim>\<open>progress_text\<close> (\<open>line\<close>), and
    \<^verbatim>\<open>update_step_indicators\<close> redraws the row of indicators for the position of the
    step (it updates the page too, so the page is updated twice).
  \<^item> \<open>Succeeded key\<close>: after the factor is marked, \<^verbatim>\<open>direction_text\<close> is the text of
    \<open>key\<close> in green, \<^verbatim>\<open>status_text\<close> is empty and \<^verbatim>\<open>_update_indicators\<close> redraws the
    factor list.
  \<^item> \<open>ShowStep n\<close>: \<^verbatim>\<open>_update_content\<close> with \<^verbatim>\<open>current_step[0]\<close> equal to \<open>n\<close>.
  \<^item> \<open>ShowVault\<close>: \<^verbatim>\<open>_build_page\<close>.
  \<^item> \<open>Sleep ms\<close>: \<^verbatim>\<open>time.sleep\<close>, in milliseconds.
\<close>

datatype progress = StepOf nat nat | SecondsRemaining nat

datatype ui_event =
  Verifying | Display string progress | Succeeded string | ShowStep nat | ShowVault | Sleep nat

fun listen_countdown :: "string \<Rightarrow> nat \<Rightarrow> ui_event list" where
  "listen_countdown key 0 = []"
| "listen_countdown key (Suc r) =
     Display key (SecondsRemaining (Suc r)) # Sleep 1000 # listen_countdown key r"

definition voice_steps :: "(string \<times> nat) list" where
  "voice_steps =
     [(''voice_speak_now'', 3000), (''voice_listening'', 10000), (''voice_processing'', 2000)]"

fun voice_script :: "nat \<Rightarrow> (string \<times> nat) list \<Rightarrow> ui_event list" where
  "voice_script i [] = []"
| "voice_script i ((key, delay) # steps) =
     (if key = ''voice_listening''
      then listen_countdown key (delay div 1000)
      else [Display key (StepOf (i + 1) 3), Sleep delay])
     @ voice_script (i + 1) steps"

definition face_directions :: "string list" where
  "face_directions =
     [''face_look_center'', ''face_look_up'', ''face_look_down'', ''face_look_left'',
      ''face_look_right'', ''face_capture_complete'']"

fun face_script :: "nat \<Rightarrow> string list \<Rightarrow> ui_event list" where
  "face_script i [] = []"
| "face_script i (key # directions) =
     Display key (StepOf (i + 1) 6) # Sleep 1000 # face_script (i + 1) directions"

text \<open>
  What \<^verbatim>\<open>_check_complete\<close> and \<^verbatim>\<open>_next_step\<close> do to the screen when a thread
  calls them: \<^verbatim>\<open>_check_complete\<close> sleeps for half a second and builds the vault page
  when every required factor is verified, and does nothing otherwise.
\<close>

definition check_complete_events :: "bool \<Rightarrow> app \<Rightarrow> ui_event list" where
  "check_complete_events mobile a =
     (let v = verified (session a);
          all_ok = (v Passkey \<and> v Voice \<and> v Face);
          all_ok = (if mobile then all_ok \<and> v Fingerprint else all_ok)
      in if all_ok then [Sleep 500, ShowVault] else [])"

definition next_step_events :: "bool \<Rightarrow> app \<Rightarrow> ui_event list" where
  "next_step_events mobile a =
     (let a1 = a\<lparr>session := (session a)\<lparr>current_step := current_step (session a) + 1\<rparr>\<rparr>
      in ShowStep (current_step (session a1)) # check_complete_events mobile a1)"

text \<open>
  The handlers \<^verbatim>\<open>_verify_voice\<close> and \<^verbatim>\<open>_verify_face\<close>, with the body of the thread
  \<^verbatim>\<open>do_verify\<close> run to its end: the script, the mark in \<^verbatim>\<open>verified\<close>, the success
  prompt, a sleep of 0.8 seconds and \<^verbatim>\<open>_next_step\<close>. They return what was done to the
  screen and the new state.
\<close>

definition login_verify_voice :: "bool \<Rightarrow> app \<Rightarrow> ui_event list \<times> app" where
  "login_verify_voice mobile a =
     (let a1 = set_verified Voice a
      in (Verifying # voice_script 0 voice_steps
            @ [Succeeded ''voice_success'', Sleep 800] @ next_step_events mobile a1,
          next_step mobile a1))"

definition login_verify_face :: "bool \<Rightarrow> app \<Rightarrow> ui_event list \<times> app" where
  "login_verify_face mobile a =
     (let a1 = set_verified Face a
      in (Verifying # face_script 0 face_directions
            @ [Succeeded ''face_success'', Sleep 800] @ next_step_events mobile a1,
          next_step mobile a1))"

text \<open>
  The handler \<^verbatim>\<open>_verify_fingerprint\<close>: on a mobile platform \<^verbatim>\<open>page.login\<close> either
  raises, or later calls \<^verbatim>\<open>_on_login\<close> with or without an error.
\<close>

datatype login_result = LoginRaised | LoginError | LoginSuccess

definition login_verify_fingerprint :: "bool \<Rightarrow> login_result \<Rightarrow> app \<Rightarrow> app" where
  "login_verify_fingerprint mobile r a =
     (if mobile
      then (case r of
              LoginRaised \<Rightarrow> set_err_text BiometricUnavailable a
            | LoginError \<Rightarrow> set_err_text BiometricFail a
            | LoginSuccess \<Rightarrow> check_complete mobile (set_verified Fingerprint a))
      else a)"

text \<open>One handler call of the verification page, and a sequence of them.\<close>

datatype event =
  SubmitPasskey datetime string | StartVoice | StartFace | StartFingerprint login_result

fun sequencer_step :: "hmac_sha256 \<Rightarrow> bool \<Rightarrow> event \<Rightarrow> app \<Rightarrow> app" where
  "sequencer_step hm mobile (SubmitPasskey now v) a = login_verify_passkey hm mobile now v a"
| "sequencer_step hm mobile StartVoice a = snd (login_verify_voice mobile a)"
| "sequencer_step hm mobile StartFace a = snd (login_verify_face mobile a)"
| "sequencer_step hm mobile (StartFingerprint r) a = login_verify_fingerprint mobile r a"

fun sequencer_run :: "hmac_sha256 \<Rightarrow> bool \<Rightarrow> event list \<Rightarrow> app \<Rightarrow> app" where
  "sequencer_run hm mobile [] a = a"
| "sequencer_run hm mobile (e # es) a = sequencer_run hm mobile es (sequencer_step hm mobile e a)"

subsection \<open>Start of the application (lines 1148-1255)\<close>

text \<open>
  \<^verbatim>\<open>__init__\<close> on the store found on disk: no field of a previous process is read. No
  page is shown yet and no verification session exists; the session field holds the
  empty one.
\<close>

definition init_app :: "auth_store \<Rightarrow> app" where
  "init_app st =
     \<lparr>failed_attempts = 0, lockout_until = None, lockout_count = 0, auth = st,
      setup_data = empty_setup_data, page = NoPage, session = new_session\<rparr>"

definition build_setup_step1 :: "app \<Rightarrow> app" where
  "build_setup_step1 a = a\<lparr>page := SetupStep1, setup_data := empty_setup_data\<rparr>"

definition main :: "datetime \<Rightarrow> app \<Rightarrow> app" where
  "main now a =
     (let a1 = a\<lparr>failed_attempts := get_or (k_failed_attempts (auth a)) 0\<rparr>
      in if \<not> has_passkey a1 then build_setup_step1 a1
         else build_verification_page now a1)"

definition launch :: "datetime \<Rightarrow> auth_store \<Rightarrow> app" where
  "launch now st = main now (init_app st)"

subsection \<open>Forms that take a passkey (lines 1274-1281, 1326-1337, 1931-1941, 2305-2320, 2520-2535)\<close>

text \<open>The message a form shows instead of saving.\<close>

datatype form_error =
  PassTooShort | PassMismatch | WrongCurrent | SelectQuestion | AnswerHint

datatype py_exception = KeyError string

definition build_setup_step2 :: "app \<Rightarrow> app" where
  "build_setup_step2 a = a\<lparr>page := SetupStep2\<rparr>"

definition build_setup_step3 :: "app \<Rightarrow> app" where
  "build_setup_step3 a = a\<lparr>page := SetupStep3\<rparr>"

text \<open>\<^verbatim>\<open>_next\<close> of setup step 1; the arguments are the values of the two text fields.\<close>

definition setup_step1_next :: "string \<Rightarrow> string \<Rightarrow> app \<Rightarrow> form_error option \<times> app" where
  "setup_step1_next new_value con_value a =
     (let p1 = strip new_value; p2 = strip con_value
      in if length p1 < 4 then (Some PassTooShort, a)
         else if p1 \<noteq> p2 then (Some PassMismatch, a)
         else (None, build_setup_step2 (a\<lparr>setup_data := (setup_data a)\<lparr>sd_passkey := Some p1\<rparr>\<rparr>)))"

text \<open>\<^verbatim>\<open>_next\<close> of setup step 2; \<open>q\<close> is the value of the dropdown.\<close>

definition setup_step2_next ::
  "string option \<Rightarrow> string \<Rightarrow> app \<Rightarrow> form_error option \<times> app" where
  "setup_step2_next q answer_value a =
     (let ans = strip answer_value
      in if q = None \<or> q = Some [] then (Some SelectQuestion, a)
         else if length ans < 2 then (Some AnswerHint, a)
         else (None, build_setup_step3
                 (a\<lparr>setup_data := (setup_data a)\<lparr>sd_question := q, sd_answer := Some ans\<rparr>\<rparr>)))"

text \<open>
  \<^verbatim>\<open>_complete_setup\<close>: a key missing from \<^verbatim>\<open>_setup_data\<close> raises \<^verbatim>\<open>KeyError\<close> at
  the statement that reads it; the state is returned as that statement found it.
\<close>

definition complete_setup ::
  "hmac_sha256 \<Rightarrow> string \<Rightarrow> string \<Rightarrow> app \<Rightarrow> py_exception option \<times> app" where
  "complete_setup hm salt1 salt2 a =
     (case sd_passkey (setup_data a) of
        None \<Rightarrow> (Some (KeyError ''passkey''), a)
      | Some p \<Rightarrow>
          (let a1 = save_passkey hm salt1 p a
           in case sd_question (setup_data a1) of
                None \<Rightarrow> (Some (KeyError ''question''), a1)
              | Some q \<Rightarrow>
                  (case sd_answer (setup_data a1) of
                     None \<Rightarrow> (Some (KeyError ''answer''), a1)
                   | Some ans \<Rightarrow>
                       (let a2 = save_secret_question hm salt2 q ans a1;
                            a3 = a2\<lparr>setup_data := empty_setup_data\<rparr>
                        in (None, build_page a3)))))"

text \<open>\<^verbatim>\<open>_save\<close> of the dialog \<^verbatim>\<open>_open_reset_passkey\<close> (after a correct recovery answer).\<close>

definition reset_passkey_save ::
  "hmac_sha256 \<Rightarrow> string \<Rightarrow> datetime \<Rightarrow> string \<Rightarrow> string \<Rightarrow> app \<Rightarrow> form_error option \<times> app"
  where
  "reset_passkey_save hm new_salt now new_value con_value a =
     (let p1 = strip new_value; p2 = strip con_value
      in if length p1 < 4 then (Some PassTooShort, a)
         else if p1 \<noteq> p2 then (Some PassMismatch, a)
         else (None, build_verification_page now (clear_lockout (save_passkey hm new_salt p1 a))))"

text \<open>\<^verbatim>\<open>_save\<close> of the dialog \<^verbatim>\<open>_open_change_passkey\<close> (from the settings).\<close>

definition change_passkey_save ::
  "hmac_sha256 \<Rightarrow> string \<Rightarrow> string \<Rightarrow> string \<Rightarrow> string \<Rightarrow> app \<Rightarrow> form_error option \<times> app"
  where
  "change_passkey_save hm new_salt cur_value new_value con_value a =
     (let c = strip cur_value; p1 = strip new_value; p2 = strip con_value
      in if \<not> verify_passkey hm c a then (Some WrongCurrent, a)
         else if length p1 < 4 then (Some PassTooShort, a)
         else if p1 \<noteq> p2 then (Some PassMismatch, a)
         else (None, save_passkey hm new_salt p1 a))"

subsection \<open>Notions used in the statements\<close>

text \<open>
  What a wrong passkey does to the attempt counter in \<^const>\<open>login_verify_passkey\<close>:
  \<^verbatim>\<open>self._failed_attempts += 1\<close> and the \<^verbatim>\<open>put\<close> of the new value.
\<close>

definition count_failure :: "app \<Rightarrow> app" where
  "count_failure a =
     a\<lparr>failed_attempts := failed_attempts a + 1,
       auth := (auth a)\<lparr>k_failed_attempts := Some (failed_attempts a + 1)\<rparr>\<rparr>"

text \<open>The state after two wrong passkeys that did not lock the vault.\<close>

definition two_strikes :: "app \<Rightarrow> app" where
  "two_strikes a =
     set_err_text (WrongPass 1) (count_failure (set_err_text (WrongPass 2) (count_failure a)))"

text \<open>A text that consists of whitespace only.\<close>

definition blank :: "string \<Rightarrow> bool" where
  "blank ws = list_all isspace ws"

text \<open>
  Concrete inputs for the examples below. \<open>demo_hmac\<close> stands in for the library's
  HMAC-SHA256 there: the examples need some function of that type whose values can be
  computed, and none of the general theorems mentions it. \<open>demo_app\<close> is the application
  as it starts on a store that holds the passkey \<^verbatim>\<open>1234\<close> and nothing else.
\<close>

definition demo_hmac :: hmac_sha256 where
  "demo_hmac key msg = of_nat (foldl (\<lambda>h c. 257 * h + of_char c) (length key) msg)"

definition demo_store :: auth_store where
  "demo_store = auth (save_passkey demo_hmac ''a1b2'' ''1234'' (init_app clear_all))"

definition demo_app :: app where
  "demo_app = launch 0 demo_store"

text \<open>
  The first run on an empty store after its first two setup steps: the passkey
  \<^verbatim>\<open>1234\<close> typed with blanks, a question and the answer \<^verbatim>\<open>Rex\<close>.
\<close>

definition demo_setup :: app where
  "demo_setup =
     snd (setup_step2_next (Some ''q_first_pet_name'') '' Rex''
       (snd (setup_step1_next '' 1234'' ''1234 '' (launch 0 clear_all))))"

section \<open>Properties\<close>

subsection \<open>The hexadecimal digest determines the digest\<close>

lemma hexdigit_inj: "i < 16 \<Longrightarrow> j < 16 \<Longrightarrow> hexdigit i = hexdigit j \<Longrightarrow> i = j"
proof -
  have d: "distinct ''0123456789abcdef''" by simp
  have l: "length ''0123456789abcdef'' = 16" by simp
  show "i < 16 \<Longrightarrow> j < 16 \<Longrightarrow> hexdigit i = hexdigit j \<Longrightarrow> i = j"
    unfolding hexdigit_def using d l by (metis nth_eq_iff_index_eq)
qed

lemma nibble_less: "nibble w k < 16"
proof -
  have "nibble w k = take_bit 4 (unat (drop_bit (4 * k) w))"
    by (simp add: nibble_def unsigned_take_bit_eq)
  also have "\<dots> < 2 ^ 4" by (rule take_bit_nat_less_exp)
  finally show ?thesis by simp
qed

lemma hexdigest_nibbles:
  assumes "hexdigest x = hexdigest y" and "k < 64"
  shows "nibble x k = nibble y k"
proof -
  from assms(1) have "map (\<lambda>i. hexdigit (nibble x (63 - i))) [0..<64] ! (63 - k)
      = map (\<lambda>i. hexdigit (nibble y (63 - i))) [0..<64] ! (63 - k)"
    by (simp only: hexdigest_def)
  moreover have "[0..<64] ! (63 - k) = 63 - k"
    using nth_upt [of 0 "63 - k" 64] by simp
  ultimately have "hexdigit (nibble x k) = hexdigit (nibble y k)"
    using assms(2) by simp
  then show ?thesis
    using hexdigit_inj nibble_less by blast
qed

lemma hexdigest_inj: "hexdigest x = hexdigest y \<longleftrightarrow> x = y"
proof
  assume h: "hexdigest x = hexdigest y"
  show "x = y"
  proof (rule bit_word_eqI)
    fix n assume "n < LENGTH(256)"
    then have k: "n div 4 < 64" by simp
    have "take_bit 4 (drop_bit (4 * (n div 4)) x) = take_bit 4 (drop_bit (4 * (n div 4)) y)"
      using hexdigest_nibbles [OF h k] unfolding nibble_def by (rule unsigned_word_eqI)
    then have "bit (take_bit 4 (drop_bit (4 * (n div 4)) x)) (n mod 4)
        = bit (take_bit 4 (drop_bit (4 * (n div 4)) y)) (n mod 4)"
      by simp
    then show "bit x n = bit y n"
      by (simp add: bit_take_bit_iff bit_drop_bit_eq)
  qed
qed simp

lemma length_hexdigest: "length (hexdigest w) = 64"
  by (simp add: hexdigest_def)

lemma hash_passkey_eq_iff:
  "hash_passkey hm p s = hash_passkey hm q s \<longleftrightarrow> hm s p = hm s q"
  by (simp add: hash_passkey_def hexdigest_inj)

text \<open>A digest of 256 bits cannot tell all strings apart.\<close>

lemma digest_collision: "\<exists>p q. p \<noteq> q \<and> (f :: string \<Rightarrow> 256 word) p = f q"
proof -
  have "\<not> inj f"
  proof
    assume "inj f"
    then have "finite (UNIV :: string set)"
      by (rule finite_imageD [rotated]) simp
    then show False by (simp add: infinite_UNIV_listI)
  qed
  then show ?thesis by (auto simp: inj_on_def)
qed

subsection \<open>Creating and verifying a passkey\<close>

lemma verify_after_save:
  "verify_passkey hm q (save_passkey hm s p a) \<longleftrightarrow> hm s q = hm s p"
  by (simp add: verify_passkey_def save_passkey_def get_or_def compare_digest_def
      hash_passkey_eq_iff)

text \<open>
  Claim C6 as stated fails in its second half. The claim says that no passkey other
  than \<open>p\<close> verifies against the secret created from \<open>p\<close>. Whatever function computes
  the 256-bit keyed digest, and whatever the salt, two different passkeys exist of which
  one verifies against the secret created from the other: the stored secret is only the
  digest, and there are more passkeys than digests.
\<close>

theorem other_passkey_verifies_counterexample:
  "\<forall>(hm :: hmac_sha256) s a. \<exists>p q. q \<noteq> p \<and> verify_passkey hm q (save_passkey hm s p a)"
proof (intro allI)
  fix hm :: hmac_sha256 and s :: string and a :: app
  obtain p q where "p \<noteq> q" and "hm s p = hm s q"
    using digest_collision [of "hm s"] by blast
  then have "q \<noteq> p \<and> verify_passkey hm q (save_passkey hm s p a)"
    by (simp add: verify_after_save)
  then show "\<exists>p q. q \<noteq> p \<and> verify_passkey hm q (save_passkey hm s p a)"
    by blast
qed

text \<open>
  Claim C6, as amended. For every passkey \<open>p\<close>, salt \<open>s\<close> and state, verifying \<open>p\<close>
  against the secret that \<^const>\<open>save_passkey\<close> creates from \<open>p\<close> returns true; and
  verifying any \<open>q\<close> against it returns true exactly when the keyed digests of \<open>q\<close> and
  \<open>p\<close> under \<open>s\<close> are equal, so it returns false for every \<open>q\<close> whose digest differs.
\<close>

theorem verify_created_passkey:
  "verify_passkey hm p (save_passkey hm s p a) \<and>
   (verify_passkey hm q (save_passkey hm s p a) = (hm s q = hm s p))"
  by (simp add: verify_after_save)

subsection \<open>The lockout window\<close>

lemma lockout_time_le: "lockout_time c \<le> 3600"
  by (simp add: lockout_time_def MAX_LOCKOUT_TIME_def)

lemma lockout_time_ge: "60 \<le> lockout_time c"
  by (simp add: lockout_time_def MAX_LOCKOUT_TIME_def LOCKOUT_BASE_TIME_def
      LOCKOUT_MULTIPLIER_def)

lemma lockout_time_values:
  "lockout_time 1 = 60" "lockout_time 2 = 120" "lockout_time 3 = 240" "lockout_time 7 = 3600"
  by (simp_all add: lockout_time_def MAX_LOCKOUT_TIME_def LOCKOUT_BASE_TIME_def
      LOCKOUT_MULTIPLIER_def)

lemma apply_lockout_fields:
  "lockout_count (apply_lockout now a) = get_or (k_lockout_count (auth a)) 0 + 1"
  "k_lockout_count (auth (apply_lockout now a)) = Some (get_or (k_lockout_count (auth a)) 0 + 1)"
  "lockout_until (apply_lockout now a) =
     Some (now + timedelta_seconds (lockout_time (get_or (k_lockout_count (auth a)) 0 + 1)))"
  "k_lockout_until (auth (apply_lockout now a)) =
     Some (now + timedelta_seconds (lockout_time (get_or (k_lockout_count (auth a)) 0 + 1)))"
  "failed_attempts (apply_lockout now a) = 0"
  "k_failed_attempts (auth (apply_lockout now a)) = Some 0"
  "k_salt (auth (apply_lockout now a)) = k_salt (auth a)"
  "k_pass_hash (auth (apply_lockout now a)) = k_pass_hash (auth a)"
  "session (apply_lockout now a) = session a"
  "page (apply_lockout now a) = page a"
  by (simp_all add: apply_lockout_def Let_def)

lemma whole_seconds_timedelta: "whole_seconds (timedelta_seconds n) = int n"
  by (simp add: whole_seconds_def timedelta_seconds_def)

lemma remaining_after_apply:
  "get_lockout_remaining now (apply_lockout now a) =
     int (lockout_time (get_or (k_lockout_count (auth a)) 0 + 1))"
  by (simp add: get_lockout_remaining_def apply_lockout_fields whole_seconds_timedelta)

lemma get_lockout_remaining_page:
  "get_lockout_remaining now (a\<lparr>page := p\<rparr>) = get_lockout_remaining now a"
  by (simp add: get_lockout_remaining_def)

text \<open>
  Right after \<^const>\<open>apply_lockout\<close> at least 60 seconds remain, so the first call of
  \<^const>\<open>update_countdown\<close> from \<^const>\<open>build_lockout_page\<close> only shows the countdown.
\<close>

lemma build_lockout_page_after_apply:
  "build_lockout_page now (apply_lockout now a) = (apply_lockout now a)\<lparr>page := LockoutPage\<rparr>"
proof -
  have "0 < get_lockout_remaining now (apply_lockout now a)"
    using lockout_time_ge [of "get_or (k_lockout_count (auth a)) 0 + 1"]
    by (simp add: remaining_after_apply)
  then show ?thesis
    by (simp add: build_lockout_page.simps update_countdown.simps get_lockout_remaining_page)
qed

lemma is_locked_out_cong:
  "lockout_until b = lockout_until a \<Longrightarrow> k_lockout_until (auth b) = k_lockout_until (auth a) \<Longrightarrow>
   fst (is_locked_out now b) = fst (is_locked_out now a)"
  by (simp add: is_locked_out_def split: option.splits)

subsection \<open>A wrong passkey at the verification page\<close>

lemma verify_passkey_cong:
  "k_salt (auth b) = k_salt (auth a) \<Longrightarrow> k_pass_hash (auth b) = k_pass_hash (auth a) \<Longrightarrow>
   verify_passkey hm p b = verify_passkey hm p a"
  by (simp add: verify_passkey_def)

lemma count_failure_fields:
  "failed_attempts (count_failure a) = failed_attempts a + 1"
  "lockout_until (count_failure a) = lockout_until a"
  "lockout_count (count_failure a) = lockout_count a"
  "k_lockout_until (auth (count_failure a)) = k_lockout_until (auth a)"
  "k_lockout_count (auth (count_failure a)) = k_lockout_count (auth a)"
  "k_salt (auth (count_failure a)) = k_salt (auth a)"
  "k_pass_hash (auth (count_failure a)) = k_pass_hash (auth a)"
  "session (count_failure a) = session a"
  "page (count_failure a) = page a"
  by (simp_all add: count_failure_def)

lemma set_err_text_fields:
  "failed_attempts (set_err_text n a) = failed_attempts a"
  "lockout_until (set_err_text n a) = lockout_until a"
  "lockout_count (set_err_text n a) = lockout_count a"
  "auth (set_err_text n a) = auth a"
  "page (set_err_text n a) = page a"
  "verified (session (set_err_text n a)) = verified (session a)"
  by (simp_all add: set_err_text_def)

lemma login_fail_below:
  assumes "\<not> verify_passkey hm (strip v) a" and "failed_attempts a + 1 < MAX_ATTEMPTS"
  shows "login_verify_passkey hm mobile now v a =
     set_err_text (WrongPass (int MAX_ATTEMPTS - int (failed_attempts a + 1))) (count_failure a)"
  using assms by (simp add: login_verify_passkey_def count_failure_def Let_def)

lemma login_fail_lock:
  assumes "\<not> verify_passkey hm (strip v) a" and "failed_attempts a + 1 = MAX_ATTEMPTS"
  shows "login_verify_passkey hm mobile now v a =
     (apply_lockout now (count_failure a))\<lparr>page := LockoutPage\<rparr>"
  using assms
  by (simp add: login_verify_passkey_def count_failure_def Let_def
      build_lockout_page_after_apply)

text \<open>Wrong passkeys in a row, starting from an attempt counter of zero.\<close>

lemma two_strikes_fields:
  "failed_attempts (two_strikes a) = failed_attempts a + 2"
  "lockout_until (two_strikes a) = lockout_until a"
  "lockout_count (two_strikes a) = lockout_count a"
  "k_lockout_until (auth (two_strikes a)) = k_lockout_until (auth a)"
  "k_lockout_count (auth (two_strikes a)) = k_lockout_count (auth a)"
  "k_salt (auth (two_strikes a)) = k_salt (auth a)"
  "k_pass_hash (auth (two_strikes a)) = k_pass_hash (auth a)"
  "page (two_strikes a) = page a"
  "verified (session (two_strikes a)) = verified (session a)"
  by (simp_all add: two_strikes_def set_err_text_def count_failure_def)

lemma two_failures:
  assumes fa: "failed_attempts a = 0"
    and w1: "\<not> verify_passkey hm (strip v1) a"
    and w2: "\<not> verify_passkey hm (strip v2) a"
  shows "sequencer_run hm mobile [SubmitPasskey t1 v1, SubmitPasskey t2 v2] a = two_strikes a"
proof -
  define a1 where "a1 = set_err_text (WrongPass 2) (count_failure a)"
  have 1: "login_verify_passkey hm mobile t1 v1 a = a1"
    using login_fail_below [OF w1, of mobile t1] fa by (simp add: MAX_ATTEMPTS_def a1_def)
  have f1: "failed_attempts a1 = 1"
    by (simp add: a1_def set_err_text_fields count_failure_fields fa)
  have w2': "\<not> verify_passkey hm (strip v2) a1"
    using w2 verify_passkey_cong [of a1 a hm]
    by (simp add: a1_def set_err_text_fields count_failure_fields)
  have "login_verify_passkey hm mobile t2 v2 a1 = two_strikes a"
    using login_fail_below [OF w2', of mobile t2] f1
    by (simp add: MAX_ATTEMPTS_def a1_def two_strikes_def)
  then show ?thesis by (simp add: 1)
qed

lemma three_failures:
  assumes fa: "failed_attempts a = 0"
    and w1: "\<not> verify_passkey hm (strip v1) a"
    and w2: "\<not> verify_passkey hm (strip v2) a"
    and w3: "\<not> verify_passkey hm (strip v3) a"
  shows "sequencer_run hm mobile
           [SubmitPasskey t1 v1, SubmitPasskey t2 v2, SubmitPasskey t3 v3] a
         = (apply_lockout t3 (count_failure (two_strikes a)))\<lparr>page := LockoutPage\<rparr>"
proof -
  have w3': "\<not> verify_passkey hm (strip v3) (two_strikes a)"
    using w3 verify_passkey_cong [of "two_strikes a" a hm] by (simp add: two_strikes_fields)
  have "login_verify_passkey hm mobile t3 v3 (two_strikes a)
      = (apply_lockout t3 (count_failure (two_strikes a)))\<lparr>page := LockoutPage\<rparr>"
    using login_fail_lock [OF w3', of mobile t3]
    by (simp add: MAX_ATTEMPTS_def two_strikes_fields fa)
  then show ?thesis
    using two_failures [OF fa w1 w2, of mobile t1 t2] by simp
qed

text \<open>The state that three wrong passkeys leave behind.\<close>

lemma locked_state_fields:
  "failed_attempts ((apply_lockout t (count_failure (two_strikes a)))\<lparr>page := LockoutPage\<rparr>) = 0"
  "k_failed_attempts (auth ((apply_lockout t (count_failure (two_strikes a)))\<lparr>page := LockoutPage\<rparr>))
     = Some 0"
  "lockout_count ((apply_lockout t (count_failure (two_strikes a)))\<lparr>page := LockoutPage\<rparr>)
     = get_or (k_lockout_count (auth a)) 0 + 1"
  "k_lockout_count (auth ((apply_lockout t (count_failure (two_strikes a)))\<lparr>page := LockoutPage\<rparr>))
     = Some (get_or (k_lockout_count (auth a)) 0 + 1)"
  "lockout_until ((apply_lockout t (count_failure (two_strikes a)))\<lparr>page := LockoutPage\<rparr>)
     = Some (t + timedelta_seconds (lockout_time (get_or (k_lockout_count (auth a)) 0 + 1)))"
  "k_lockout_until (auth ((apply_lockout t (count_failure (two_strikes a)))\<lparr>page := LockoutPage\<rparr>))
     = Some (t + timedelta_seconds (lockout_time (get_or (k_lockout_count (auth a)) 0 + 1)))"
  "k_salt (auth ((apply_lockout t (count_failure (two_strikes a)))\<lparr>page := LockoutPage\<rparr>))
     = k_salt (auth a)"
  "k_pass_hash (auth ((apply_lockout t (count_failure (two_strikes a)))\<lparr>page := LockoutPage\<rparr>))
     = k_pass_hash (auth a)"
  "page ((apply_lockout t (count_failure (two_strikes a)))\<lparr>page := LockoutPage\<rparr>) = LockoutPage"
  by (simp_all add: apply_lockout_fields count_failure_fields two_strikes_fields)

subsection \<open>The concrete inputs of the examples\<close>

lemma hexdigest_nonempty: "hexdigest w \<noteq> []"
  using length_hexdigest [of w] by auto

lemma demo_app_eq:
  "demo_app = (init_app demo_store)\<lparr>page := VerificationPage\<rparr>"
  by (simp add: demo_app_def launch_def main_def demo_store_def init_app_def save_passkey_def
      has_passkey_def hash_passkey_def hexdigest_nonempty clear_all_def get_or_def Let_def
      is_locked_out_def build_verification_page.simps)

lemma demo_app_fields:
  "failed_attempts demo_app = 0"
  "lockout_until demo_app = None"
  "lockout_count demo_app = 0"
  "k_lockout_count (auth demo_app) = None"
  "k_lockout_until (auth demo_app) = None"
  "session demo_app = new_session"
  "page demo_app = VerificationPage"
  by (simp_all add: demo_app_eq init_app_def demo_store_def save_passkey_def clear_all_def
      Let_def)

lemma verify_demo:
  "verify_passkey demo_hmac p demo_app \<longleftrightarrow> demo_hmac ''a1b2'' p = demo_hmac ''a1b2'' ''1234''"
  by (simp add: demo_app_eq init_app_def demo_store_def verify_passkey_def save_passkey_def
      get_or_def compare_digest_def hash_passkey_eq_iff Let_def)

lemma demo_wrong_passkey: "\<not> verify_passkey demo_hmac (strip ''0000'') demo_app"
  by (simp add: verify_demo demo_hmac_def strip_def isspace_def)

lemma demo_right_passkey: "verify_passkey demo_hmac (strip '' 1234  '') demo_app"
  by (simp add: verify_demo demo_hmac_def strip_def isspace_def)

lemma demo_other_wrong_passkeys:
  "\<not> verify_passkey demo_hmac (strip ''1111'') demo_app"
  "\<not> verify_passkey demo_hmac (strip ''4321 '') demo_app"
  by (simp_all add: verify_demo demo_hmac_def strip_def isspace_def)

subsection \<open>Three failures lock the vault for the base window\<close>

text \<open>
  Claim C2. Take a state whose attempt counter is zero and whose stored lockout count is
  zero or missing (no lockout has been counted yet: the first lockout), and three
  passkeys that do not verify. After the first two calls of the handler the answer of
  \<^const>\<open>is_locked_out\<close> is what it was at the start, so a vault that was not locked is
  still not locked. After the third call the lockout page is shown, the vault is locked
  until 60 seconds after the time \<open>t3\<close> of the third call, the remaining time read at
  \<open>t3\<close> is 60 seconds, and read at any time \<open>t\<close> it is the whole seconds left until
  then, or zero.
\<close>

theorem three_failures_lock_sixty_seconds:
  assumes fa: "failed_attempts a = 0"
    and first: "get_or (k_lockout_count (auth a)) 0 = 0"
    and w1: "\<not> verify_passkey hm (strip v1) a"
    and w2: "\<not> verify_passkey hm (strip v2) a"
    and w3: "\<not> verify_passkey hm (strip v3) a"
  shows "fst (is_locked_out t (sequencer_run hm mobile
                [SubmitPasskey t1 v1, SubmitPasskey t2 v2] a)) = fst (is_locked_out t a) \<and>
         page (sequencer_run hm mobile
                [SubmitPasskey t1 v1, SubmitPasskey t2 v2, SubmitPasskey t3 v3] a) = LockoutPage \<and>
         fst (is_locked_out t (sequencer_run hm mobile
                [SubmitPasskey t1 v1, SubmitPasskey t2 v2, SubmitPasskey t3 v3] a))
           = (t < t3 + 60000000) \<and>
         get_lockout_remaining t3 (sequencer_run hm mobile
                [SubmitPasskey t1 v1, SubmitPasskey t2 v2, SubmitPasskey t3 v3] a) = 60 \<and>
         get_lockout_remaining t (sequencer_run hm mobile
                [SubmitPasskey t1 v1, SubmitPasskey t2 v2, SubmitPasskey t3 v3] a)
           = max 0 (whole_seconds (t3 + 60000000 - t))"
proof -
  define a2 where "a2 = sequencer_run hm mobile [SubmitPasskey t1 v1, SubmitPasskey t2 v2] a"
  define a3 where "a3 = sequencer_run hm mobile
      [SubmitPasskey t1 v1, SubmitPasskey t2 v2, SubmitPasskey t3 v3] a"
  have a2: "a2 = two_strikes a"
    unfolding a2_def by (rule two_failures [OF fa w1 w2])
  have a3: "a3 = (apply_lockout t3 (count_failure (two_strikes a)))\<lparr>page := LockoutPage\<rparr>"
    unfolding a3_def by (rule three_failures [OF fa w1 w2 w3])
  have until: "lockout_until a3 = Some (t3 + 60000000)"
    unfolding a3 using lockout_time_values(1)
    by (simp add: locked_state_fields first timedelta_seconds_def)
  have "fst (is_locked_out t a2) = fst (is_locked_out t a)"
    unfolding a2 by (rule is_locked_out_cong) (simp_all add: two_strikes_fields)
  moreover have "page a3 = LockoutPage"
    unfolding a3 by (simp add: locked_state_fields)
  moreover have "fst (is_locked_out t a3) = (t < t3 + 60000000)"
    by (simp add: is_locked_out_def until)
  moreover have "get_lockout_remaining t a3 = max 0 (whole_seconds (t3 + 60000000 - t))"
    by (simp add: get_lockout_remaining_def until)
  moreover have "get_lockout_remaining t3 a3 = 60"
    by (simp add: get_lockout_remaining_def until whole_seconds_def)
  ultimately show ?thesis unfolding a2_def a3_def by blast
qed

text \<open>
  The example: three wrong passkeys at seconds 1, 2 and 3 against \<^const>\<open>demo_app\<close>. The
  vault is not locked at second 2.5, it is locked at second 3.5, and the remaining time
  is 60 seconds read at second 3 and 59 seconds read at second 3.5.
\<close>

theorem three_failures_lock_sixty_seconds_witness:
  "failed_attempts demo_app = 0 \<and>
   get_or (k_lockout_count (auth demo_app)) 0 = 0 \<and>
   \<not> verify_passkey demo_hmac (strip ''0000'') demo_app \<and>
   \<not> verify_passkey demo_hmac (strip ''1111'') demo_app \<and>
   \<not> verify_passkey demo_hmac (strip ''4321 '') demo_app \<and>
   \<not> fst (is_locked_out 2500000
     (sequencer_run demo_hmac False
        [SubmitPasskey 1000000 ''0000'', SubmitPasskey 2000000 ''1111''] demo_app)) \<and>
   fst (is_locked_out 3500000
     (sequencer_run demo_hmac False
        [SubmitPasskey 1000000 ''0000'', SubmitPasskey 2000000 ''1111'',
         SubmitPasskey 3000000 ''4321 ''] demo_app)) \<and>
   get_lockout_remaining 3000000
     (sequencer_run demo_hmac False
        [SubmitPasskey 1000000 ''0000'', SubmitPasskey 2000000 ''1111'',
         SubmitPasskey 3000000 ''4321 ''] demo_app) = 60 \<and>
   get_lockout_remaining 3500000
     (sequencer_run demo_hmac False
        [SubmitPasskey 1000000 ''0000'', SubmitPasskey 2000000 ''1111'',
         SubmitPasskey 3000000 ''4321 ''] demo_app) = 59"
proof -
  have h: "failed_attempts demo_app = 0"
    "get_or (k_lockout_count (auth demo_app)) 0 = 0"
    "\<not> verify_passkey demo_hmac (strip ''0000'') demo_app"
    "\<not> verify_passkey demo_hmac (strip ''1111'') demo_app"
    "\<not> verify_passkey demo_hmac (strip ''4321 '') demo_app"
    by (simp_all add: demo_app_fields get_or_def demo_wrong_passkey demo_other_wrong_passkeys)
  have n: "\<not> fst (is_locked_out 2500000 demo_app)"
    by (simp add: is_locked_out_def demo_app_fields)
  have w: "whole_seconds (3000000 + 60000000 - 3500000) = 59"
    by (simp add: whole_seconds_def)
  show ?thesis
    using h n w
      three_failures_lock_sixty_seconds [OF h, where mobile = False and t = 2500000
        and ?t1.0 = 1000000 and ?t2.0 = 2000000 and ?t3.0 = 3000000]
      three_failures_lock_sixty_seconds [OF h, where mobile = False and t = 3500000
        and ?t1.0 = 1000000 and ?t2.0 = 2000000 and ?t3.0 = 3000000]
    by (simp del: sequencer_run.simps)
qed

subsection \<open>A correct passkey resets the attempt counter only\<close>

text \<open>
  Claim C4. In a state with fewer than \<^const>\<open>MAX_ATTEMPTS\<close> failed attempts, a passkey
  that verifies sets the attempt counter to zero, in the object and in the store, and
  leaves the lockout count and the lockout end as they were, in the object and in the
  store.
\<close>

theorem success_resets_attempts_only:
  assumes "failed_attempts a < MAX_ATTEMPTS" and "verify_passkey hm (strip v) a"
  shows "failed_attempts (login_verify_passkey hm mobile now v a) = 0 \<and>
         k_failed_attempts (auth (login_verify_passkey hm mobile now v a)) = Some 0 \<and>
         lockout_count (login_verify_passkey hm mobile now v a) = lockout_count a \<and>
         k_lockout_count (auth (login_verify_passkey hm mobile now v a))
           = k_lockout_count (auth a) \<and>
         lockout_until (login_verify_passkey hm mobile now v a) = lockout_until a \<and>
         k_lockout_until (auth (login_verify_passkey hm mobile now v a))
           = k_lockout_until (auth a)"
  using assms
  by (simp add: login_verify_passkey_def next_step_def check_complete_def build_page_def
      set_verified_def set_err_text_def Let_def)

text \<open>
  The example: \<^const>\<open>demo_app\<close> after two wrong passkeys and with a stored lockout count
  of 1 and an expired lockout end; the passkey is typed with blanks around it.
\<close>

theorem success_resets_attempts_only_witness:
  "failed_attempts (two_strikes (demo_app\<lparr>lockout_until := Some 7, lockout_count := 1,
      auth := (auth demo_app)\<lparr>k_lockout_until := Some 7, k_lockout_count := Some 1\<rparr>\<rparr>))
     < MAX_ATTEMPTS \<and>
   verify_passkey demo_hmac (strip '' 1234  '')
     (two_strikes (demo_app\<lparr>lockout_until := Some 7, lockout_count := 1,
      auth := (auth demo_app)\<lparr>k_lockout_until := Some 7, k_lockout_count := Some 1\<rparr>\<rparr>)) \<and>
   failed_attempts (login_verify_passkey demo_hmac False 9000000 '' 1234  ''
     (two_strikes (demo_app\<lparr>lockout_until := Some 7, lockout_count := 1,
      auth := (auth demo_app)\<lparr>k_lockout_until := Some 7, k_lockout_count := Some 1\<rparr>\<rparr>))) = 0 \<and>
   k_lockout_count (auth (login_verify_passkey demo_hmac False 9000000 '' 1234  ''
     (two_strikes (demo_app\<lparr>lockout_until := Some 7, lockout_count := 1,
      auth := (auth demo_app)\<lparr>k_lockout_until := Some 7, k_lockout_count := Some 1\<rparr>\<rparr>))))
     = Some 1 \<and>
   k_lockout_until (auth (login_verify_passkey demo_hmac False 9000000 '' 1234  ''
     (two_strikes (demo_app\<lparr>lockout_until := Some 7, lockout_count := 1,
      auth := (auth demo_app)\<lparr>k_lockout_until := Some 7, k_lockout_count := Some 1\<rparr>\<rparr>))))
     = Some 7"
proof -
  define b where "b = two_strikes (demo_app\<lparr>lockout_until := Some 7, lockout_count := 1,
      auth := (auth demo_app)\<lparr>k_lockout_until := Some 7, k_lockout_count := Some 1\<rparr>\<rparr>)"
  have f: "failed_attempts b < MAX_ATTEMPTS"
    by (simp add: b_def two_strikes_fields demo_app_fields MAX_ATTEMPTS_def)
  have "verify_passkey demo_hmac (strip '' 1234  '') b
      = verify_passkey demo_hmac (strip '' 1234  '') demo_app"
    by (rule verify_passkey_cong) (simp_all add: b_def two_strikes_fields)
  then have v: "verify_passkey demo_hmac (strip '' 1234  '') b"
    by (simp add: demo_right_passkey)
  have s: "k_lockout_count (auth b) = Some 1" "k_lockout_until (auth b) = Some 7"
    by (simp_all add: b_def two_strikes_fields)
  show ?thesis
    using f v s success_resets_attempts_only [OF f v, of False 9000000]
    unfolding b_def by simp
qed

subsection \<open>Clearing the lockout, and the countdown at its end\<close>

lemma clear_lockout_fields:
  "failed_attempts (clear_lockout a) = failed_attempts a"
  "k_failed_attempts (auth (clear_lockout a)) = Some 0"
  "lockout_count (clear_lockout a) = 0"
  "k_lockout_count (auth (clear_lockout a)) = Some 0"
  "lockout_until (clear_lockout a) = None"
  "k_lockout_until (auth (clear_lockout a)) = None"
  "k_salt (auth (clear_lockout a)) = k_salt (auth a)"
  "k_pass_hash (auth (clear_lockout a)) = k_pass_hash (auth a)"
  by (simp_all add: clear_lockout_def)

lemma build_verification_page_after_clear:
  "build_verification_page now (clear_lockout a)
     = (clear_lockout a)\<lparr>page := VerificationPage, session := new_session\<rparr>"
proof -
  have "is_locked_out now (clear_lockout a) = (False, clear_lockout a)"
    by (simp add: is_locked_out_def clear_lockout_def)
  then show ?thesis by (simp add: build_verification_page.simps)
qed

lemma expired_countdown:
  assumes "get_lockout_remaining te a \<le> 0"
  shows "update_countdown te a
     = (clear_lockout a)\<lparr>page := VerificationPage, session := new_session\<rparr>"
  using assms build_verification_page_after_clear [of te a]
  by (simp add: update_countdown.simps)

subsection \<open>Repeated lockouts\<close>

text \<open>Every lockout window is between 60 and 3600 seconds long.\<close>

lemma lockout_window_capped:
  "\<exists>w. lockout_until (apply_lockout now a) = Some (now + timedelta_seconds w) \<and> 60 \<le> w \<and> w \<le> 3600"
  using lockout_time_le lockout_time_ge by (auto simp: apply_lockout_fields)

text \<open>
  One episode: three wrong passkeys from an attempt counter of zero lock the vault for
  the window of the stored count plus one.
\<close>

lemma lockout_episode:
  fixes hm :: hmac_sha256 and mobile :: bool and t1 t2 t3 :: datetime
  assumes fa: "failed_attempts a = 0"
    and w1: "\<not> verify_passkey hm (strip v1) a"
    and w2: "\<not> verify_passkey hm (strip v2) a"
    and w3: "\<not> verify_passkey hm (strip v3) a"
  defines "c \<equiv> get_or (k_lockout_count (auth a)) 0 + 1"
  defines "b \<equiv> sequencer_run hm mobile
                [SubmitPasskey t1 v1, SubmitPasskey t2 v2, SubmitPasskey t3 v3] a"
  shows "failed_attempts b = 0 \<and> k_failed_attempts (auth b) = Some 0 \<and>
         lockout_count b = c \<and> k_lockout_count (auth b) = Some c \<and>
         lockout_until b = Some (t3 + timedelta_seconds (lockout_time c)) \<and>
         k_lockout_until (auth b) = Some (t3 + timedelta_seconds (lockout_time c)) \<and>
         k_salt (auth b) = k_salt (auth a) \<and> k_pass_hash (auth b) = k_pass_hash (auth a) \<and>
         page b = LockoutPage"
  unfolding b_def c_def three_failures [OF fa w1 w2 w3]
  by (simp only: locked_state_fields simp_thms)

lemma whole_seconds_nonpos: "d \<le> 0 \<Longrightarrow> whole_seconds d \<le> 0"
  by (auto simp: whole_seconds_def intro: pos_imp_zdiv_nonneg_iff [THEN iffD2])

text \<open>
  Claim C1, on the path where the lockout page is open when the window ends. The first
  lockout ends at \<open>t3\<close> plus 60 seconds; a tick of the countdown at a later time \<open>te\<close>
  finds no whole second remaining, calls \<^const>\<open>clear_lockout\<close> and shows the
  verification page. Three more wrong passkeys then lock the vault with a lockout count
  of 1 and a remaining time of 60 seconds: the count was reset with the lockout, so the
  second window is the base window again, not 120 seconds.
\<close>

theorem second_lockout_after_countdown:
  assumes fa: "failed_attempts a = 0"
    and first: "get_or (k_lockout_count (auth a)) 0 = 0"
    and w1: "\<not> verify_passkey hm (strip v1) a"
    and w2: "\<not> verify_passkey hm (strip v2) a"
    and w3: "\<not> verify_passkey hm (strip v3) a"
    and expired: "t3 + 60000000 \<le> te"
  shows "page (update_countdown te (sequencer_run hm mobile
            [SubmitPasskey t1 v1, SubmitPasskey t2 v2, SubmitPasskey t3 v3] a)) = VerificationPage \<and>
         lockout_count (sequencer_run hm mobile
            [SubmitPasskey t4 v1, SubmitPasskey t5 v2, SubmitPasskey t6 v3]
            (update_countdown te (sequencer_run hm mobile
               [SubmitPasskey t1 v1, SubmitPasskey t2 v2, SubmitPasskey t3 v3] a))) = 1 \<and>
         get_lockout_remaining t6 (sequencer_run hm mobile
            [SubmitPasskey t4 v1, SubmitPasskey t5 v2, SubmitPasskey t6 v3]
            (update_countdown te (sequencer_run hm mobile
               [SubmitPasskey t1 v1, SubmitPasskey t2 v2, SubmitPasskey t3 v3] a))) = 60"
proof -
  define a3 where "a3 = sequencer_run hm mobile
      [SubmitPasskey t1 v1, SubmitPasskey t2 v2, SubmitPasskey t3 v3] a"
  define a4 where "a4 = update_countdown te a3"
  define a7 where "a7 = sequencer_run hm mobile
      [SubmitPasskey t4 v1, SubmitPasskey t5 v2, SubmitPasskey t6 v3] a4"
  note e1 = lockout_episode [OF fa w1 w2 w3, of mobile t1 t2 t3, folded a3_def]
  have until: "lockout_until a3 = Some (t3 + 60000000)"
    using e1 lockout_time_values(1) by (simp add: first timedelta_seconds_def)
  have "get_lockout_remaining te a3 \<le> 0"
    using expired whole_seconds_nonpos [of "t3 + 60000000 - te"]
    by (simp add: get_lockout_remaining_def until)
  then have a4: "a4 = (clear_lockout a3)\<lparr>page := VerificationPage, session := new_session\<rparr>"
    unfolding a4_def by (rule expired_countdown)
  have fa4: "failed_attempts a4 = 0"
    using e1 by (simp add: a4 clear_lockout_fields)
  have c4: "get_or (k_lockout_count (auth a4)) 0 = 0"
    by (simp add: a4 clear_lockout_fields get_or_def)
  have same: "k_salt (auth a4) = k_salt (auth a)" "k_pass_hash (auth a4) = k_pass_hash (auth a)"
    using e1 by (simp_all add: a4 clear_lockout_fields)
  have w1': "\<not> verify_passkey hm (strip v1) a4"
    and w2': "\<not> verify_passkey hm (strip v2) a4"
    and w3': "\<not> verify_passkey hm (strip v3) a4"
    using w1 w2 w3 verify_passkey_cong [OF same] by simp_all
  note e2 = lockout_episode [OF fa4 w1' w2' w3', of mobile t4 t5 t6, folded a7_def]
  have "page a4 = VerificationPage" by (simp add: a4)
  moreover have "lockout_count a7 = 1"
    using e2 by (simp add: c4)
  moreover have "get_lockout_remaining t6 a7 = 60"
    using e2 lockout_time_values(1)
    by (simp add: c4 get_lockout_remaining_def whole_seconds_timedelta)
  ultimately show ?thesis unfolding a7_def a4_def a3_def by blast
qed


text \<open>
  The example: the first lockout at second 3, a tick of the countdown at second 63, and
  wrong passkeys at seconds 64, 65 and 66.
\<close>

theorem second_lockout_after_countdown_witness:
  "failed_attempts demo_app = 0 \<and>
   get_or (k_lockout_count (auth demo_app)) 0 = 0 \<and>
   \<not> verify_passkey demo_hmac (strip ''0000'') demo_app \<and>
   \<not> verify_passkey demo_hmac (strip ''1111'') demo_app \<and>
   \<not> verify_passkey demo_hmac (strip ''4321 '') demo_app \<and>
   (3000000::int) + 60000000 \<le> 63000000 \<and>
   lockout_count (sequencer_run demo_hmac False
      [SubmitPasskey 64000000 ''0000'', SubmitPasskey 65000000 ''1111'',
       SubmitPasskey 66000000 ''4321 '']
      (update_countdown 63000000 (sequencer_run demo_hmac False
         [SubmitPasskey 1000000 ''0000'', SubmitPasskey 2000000 ''1111'',
          SubmitPasskey 3000000 ''4321 ''] demo_app))) = 1 \<and>
   get_lockout_remaining 66000000 (sequencer_run demo_hmac False
      [SubmitPasskey 64000000 ''0000'', SubmitPasskey 65000000 ''1111'',
       SubmitPasskey 66000000 ''4321 '']
      (update_countdown 63000000 (sequencer_run demo_hmac False
         [SubmitPasskey 1000000 ''0000'', SubmitPasskey 2000000 ''1111'',
          SubmitPasskey 3000000 ''4321 ''] demo_app))) = 60"
proof -
  have h: "failed_attempts demo_app = 0"
    "get_or (k_lockout_count (auth demo_app)) 0 = 0"
    "\<not> verify_passkey demo_hmac (strip ''0000'') demo_app"
    "\<not> verify_passkey demo_hmac (strip ''1111'') demo_app"
    "\<not> verify_passkey demo_hmac (strip ''4321 '') demo_app"
    "(3000000::int) + 60000000 \<le> 63000000"
    by (simp_all add: demo_app_fields get_or_def demo_wrong_passkey demo_other_wrong_passkeys)
  show ?thesis
    using h second_lockout_after_countdown [OF h, where mobile = False
        and ?t1.0 = 1000000 and ?t2.0 = 2000000
        and ?t4.0 = 64000000 and ?t5.0 = 65000000 and ?t6.0 = 66000000]
    by (simp del: sequencer_run.simps)
qed

text \<open>
  The other path: the application is closed while locked and started again after the
  window has ended. \<^const>\<open>is_locked_out\<close> answers no and nothing is cleared, so the
  stored count stands and the windows double: 60, 120, 240 seconds.
\<close>

lemma launch_not_locked:
  assumes "k_pass_hash st = Some h" and "h \<noteq> []"
    and "k_lockout_until st = Some u" and "u \<le> te"
  shows "launch te st =
    (init_app st)\<lparr>failed_attempts := get_or (k_failed_attempts st) 0,
                  lockout_until := Some u, page := VerificationPage, session := new_session\<rparr>"
  using assms
  by (simp add: launch_def main_def init_app_def has_passkey_def is_locked_out_def Let_def
      build_verification_page.simps)

lemma restart_episode:
  fixes hm :: hmac_sha256 and mobile :: bool and t1 t2 t3 te :: datetime
  assumes pk: "k_pass_hash st = Some h" "h \<noteq> []"
    and until: "k_lockout_until st = Some u" "u \<le> te"
    and fa: "k_failed_attempts st = Some 0"
    and cnt: "k_lockout_count st = Some n"
    and w1: "\<not> verify_passkey hm (strip v1) (init_app st)"
    and w2: "\<not> verify_passkey hm (strip v2) (init_app st)"
    and w3: "\<not> verify_passkey hm (strip v3) (init_app st)"
  defines "b \<equiv> sequencer_run hm mobile
      [SubmitPasskey t1 v1, SubmitPasskey t2 v2, SubmitPasskey t3 v3] (launch te st)"
  shows "k_pass_hash (auth b) = Some h \<and> k_salt (auth b) = k_salt st \<and>
         k_failed_attempts (auth b) = Some 0 \<and>
         k_lockout_count (auth b) = Some (n + 1) \<and>
         k_lockout_until (auth b) = Some (t3 + timedelta_seconds (lockout_time (n + 1))) \<and>
         lockout_until b = Some (t3 + timedelta_seconds (lockout_time (n + 1)))"
proof -
  note l = launch_not_locked [OF pk until]
  have fa0: "failed_attempts (launch te st) = 0"
    by (simp add: l fa get_or_def)
  have au: "auth (launch te st) = st"
    by (simp add: l init_app_def)
  have w: "\<not> verify_passkey hm (strip v1) (launch te st)"
    "\<not> verify_passkey hm (strip v2) (launch te st)"
    "\<not> verify_passkey hm (strip v3) (launch te st)"
    using w1 w2 w3 by (simp_all add: verify_passkey_def au init_app_def)
  show ?thesis
    using lockout_episode [OF fa0 w, of mobile t1 t2 t3]
    by (simp add: b_def au cnt pk get_or_def)
qed

lemma lockout_time_Suc_values:
  "lockout_time (Suc 0) = 60" "lockout_time (Suc (Suc 0)) = 120"
  "lockout_time (Suc (Suc (Suc 0))) = 240"
  by (simp_all add: lockout_time_def MAX_LOCKOUT_TIME_def LOCKOUT_BASE_TIME_def
      LOCKOUT_MULTIPLIER_def)

lemma restart_path_escalates:
  fixes hm :: hmac_sha256 and mobile :: bool
    and t1 t2 t3 t4 t5 t6 t7 t8 t9 te te' :: datetime
  assumes fa: "failed_attempts a = 0"
    and first: "get_or (k_lockout_count (auth a)) 0 = 0"
    and pk: "k_pass_hash (auth a) = Some h" "h \<noteq> []"
    and w1: "\<not> verify_passkey hm (strip v1) a"
    and w2: "\<not> verify_passkey hm (strip v2) a"
    and w3: "\<not> verify_passkey hm (strip v3) a"
    and x1: "t3 + 60000000 \<le> te"
    and x2: "t6 + 120000000 \<le> te'"
  defines "b1 \<equiv> sequencer_run hm mobile
      [SubmitPasskey t1 v1, SubmitPasskey t2 v2, SubmitPasskey t3 v3] a"
  defines "b2 \<equiv> sequencer_run hm mobile
      [SubmitPasskey t4 v1, SubmitPasskey t5 v2, SubmitPasskey t6 v3] (launch te (auth b1))"
  defines "b3 \<equiv> sequencer_run hm mobile
      [SubmitPasskey t7 v1, SubmitPasskey t8 v2, SubmitPasskey t9 v3] (launch te' (auth b2))"
  shows "get_lockout_remaining t3 b1 = 60 \<and> get_lockout_remaining t6 b2 = 120 \<and>
         get_lockout_remaining t9 b3 = 240"
proof -
  note e1 = lockout_episode [OF fa w1 w2 w3, of mobile t1 t2 t3, folded b1_def]
  have s1: "k_pass_hash (auth b1) = Some h" "k_lockout_until (auth b1) = Some (t3 + 60000000)"
    "k_failed_attempts (auth b1) = Some 0" "k_lockout_count (auth b1) = Some 1"
    "lockout_until b1 = Some (t3 + 60000000)"
    using e1 lockout_time_values(1) by (simp_all add: first pk timedelta_seconds_def)
  have v1: "\<not> verify_passkey hm (strip v1) (init_app (auth b1))"
    "\<not> verify_passkey hm (strip v2) (init_app (auth b1))"
    "\<not> verify_passkey hm (strip v3) (init_app (auth b1))"
    using w1 w2 w3 e1 verify_passkey_cong [of "init_app (auth b1)" a hm]
    by (simp_all add: init_app_def)
  note e2 = restart_episode [OF s1(1) pk(2) s1(2) x1 s1(3) s1(4) v1,
      of mobile t4 t5 t6, folded b2_def]
  have s2: "k_pass_hash (auth b2) = Some h" "k_lockout_until (auth b2) = Some (t6 + 120000000)"
    "k_failed_attempts (auth b2) = Some 0" "k_lockout_count (auth b2) = Some 2"
    "lockout_until b2 = Some (t6 + 120000000)"
    by (simp_all add: e2 lockout_time_values lockout_time_Suc_values timedelta_seconds_def)
  have v2: "\<not> verify_passkey hm (strip v1) (init_app (auth b2))"
    "\<not> verify_passkey hm (strip v2) (init_app (auth b2))"
    "\<not> verify_passkey hm (strip v3) (init_app (auth b2))"
    using v1 e2 verify_passkey_cong [of "init_app (auth b2)" "init_app (auth b1)" hm]
    by (simp_all add: init_app_def s1)
  note e3 = restart_episode [OF s2(1) pk(2) s2(2) x2 s2(3) s2(4) v2,
      of mobile t7 t8 t9, folded b3_def]
  have s3: "lockout_until b3 = Some (t9 + 240000000)"
    by (simp add: e3 lockout_time_values lockout_time_Suc_values timedelta_seconds_def)
  show ?thesis
    by (simp add: get_lockout_remaining_def s1 s2 s3 whole_seconds_def)
qed

subsection \<open>Clearing the lockout does not reset the attempt counter of the object\<close>

lemma save_passkey_fields:
  "failed_attempts (save_passkey hm s p a) = failed_attempts a"
  "lockout_until (save_passkey hm s p a) = lockout_until a"
  "lockout_count (save_passkey hm s p a) = lockout_count a"
  "k_salt (auth (save_passkey hm s p a)) = Some s"
  "k_pass_hash (auth (save_passkey hm s p a)) = Some (hash_passkey hm p s)"
  "k_lockout_count (auth (save_passkey hm s p a)) = k_lockout_count (auth a)"
  "k_lockout_until (auth (save_passkey hm s p a)) = k_lockout_until (auth a)"
  "k_failed_attempts (auth (save_passkey hm s p a)) = k_failed_attempts (auth a)"
  by (simp_all add: save_passkey_def Let_def)

text \<open>
  Claim C3, at the recovery dialog. \<^const>\<open>clear_lockout\<close> resets the stored attempt
  counter, the lockout count and the lockout end, but not the field
  \<^verbatim>\<open>self._failed_attempts\<close> (lemma \<open>clear_lockout_fields\<close>). After two wrong passkeys
  and a passkey reset through the recovery dialog, the stored counter is 0, the counter
  of the object is still 2, and a single wrong passkey locks the vault: the cycle after
  the clear is not a fresh one of three failures.
\<close>

theorem one_failure_locks_after_recovery:
  assumes fa: "failed_attempts a = 0"
    and w1: "\<not> verify_passkey hm (strip v1) a"
    and w2: "\<not> verify_passkey hm (strip v2) a"
    and len: "4 \<le> length (strip new_value)"
    and w3: "hm s (strip v3) \<noteq> hm s (strip new_value)"
  shows "fst (reset_passkey_save hm s tr new_value new_value
           (sequencer_run hm mobile [SubmitPasskey t1 v1, SubmitPasskey t2 v2] a)) = None \<and>
         k_failed_attempts (auth (snd (reset_passkey_save hm s tr new_value new_value
           (sequencer_run hm mobile [SubmitPasskey t1 v1, SubmitPasskey t2 v2] a)))) = Some 0 \<and>
         failed_attempts (snd (reset_passkey_save hm s tr new_value new_value
           (sequencer_run hm mobile [SubmitPasskey t1 v1, SubmitPasskey t2 v2] a))) = 2 \<and>
         page (snd (reset_passkey_save hm s tr new_value new_value
           (sequencer_run hm mobile [SubmitPasskey t1 v1, SubmitPasskey t2 v2] a)))
           = VerificationPage \<and>
         fst (is_locked_out t3 (login_verify_passkey hm mobile t3 v3
           (snd (reset_passkey_save hm s tr new_value new_value
             (sequencer_run hm mobile [SubmitPasskey t1 v1, SubmitPasskey t2 v2] a)))))"
proof -
  define a2 where "a2 = sequencer_run hm mobile [SubmitPasskey t1 v1, SubmitPasskey t2 v2] a"
  define x where "x = save_passkey hm s (strip new_value) a2"
  define b where "b = (clear_lockout x)\<lparr>page := VerificationPage, session := new_session\<rparr>"
  have a2: "a2 = two_strikes a"
    unfolding a2_def by (rule two_failures [OF fa w1 w2])
  have r: "reset_passkey_save hm s tr new_value new_value a2 = (None, b)"
    using len build_verification_page_after_clear [of tr x]
    by (simp add: reset_passkey_save_def Let_def x_def b_def)
  have fb: "failed_attempts b = 2"
    by (simp add: b_def x_def clear_lockout_fields save_passkey_fields a2 two_strikes_fields fa)
  have kb: "k_failed_attempts (auth b) = Some 0"
    by (simp add: b_def clear_lockout_fields)
  have "verify_passkey hm (strip v3) b = verify_passkey hm (strip v3) x"
    by (rule verify_passkey_cong) (simp_all add: b_def clear_lockout_fields)
  then have w3': "\<not> verify_passkey hm (strip v3) b"
    using w3 by (simp add: x_def verify_after_save)
  have l: "login_verify_passkey hm mobile t3 v3 b
      = (apply_lockout t3 (count_failure b))\<lparr>page := LockoutPage\<rparr>"
    by (rule login_fail_lock [OF w3']) (simp add: fb MAX_ATTEMPTS_def)
  have pb: "page b = VerificationPage" by (simp add: b_def)
  have "fst (is_locked_out t3 (login_verify_passkey hm mobile t3 v3 b))"
    using lockout_time_ge [of "get_or (k_lockout_count (auth (count_failure b))) 0 + 1"]
    by (simp add: l is_locked_out_def apply_lockout_fields timedelta_seconds_def)
  then show ?thesis
    unfolding a2_def [symmetric] r using fb kb pb by simp
qed


text \<open>
  The example: two wrong passkeys, the passkey reset to \<^verbatim>\<open>abcd\<close>, and then the old
  passkey once.
\<close>

theorem one_failure_locks_after_recovery_witness:
  "failed_attempts demo_app = 0 \<and>
   \<not> verify_passkey demo_hmac (strip ''0000'') demo_app \<and>
   \<not> verify_passkey demo_hmac (strip ''1111'') demo_app \<and>
   4 \<le> length (strip ''abcd'') \<and>
   demo_hmac ''ffee'' (strip ''1234'') \<noteq> demo_hmac ''ffee'' (strip ''abcd'') \<and>
   failed_attempts (snd (reset_passkey_save demo_hmac ''ffee'' 5000000 ''abcd'' ''abcd''
     (sequencer_run demo_hmac False
        [SubmitPasskey 1000000 ''0000'', SubmitPasskey 2000000 ''1111''] demo_app))) = 2 \<and>
   fst (is_locked_out 9000000 (login_verify_passkey demo_hmac False 9000000 ''1234''
     (snd (reset_passkey_save demo_hmac ''ffee'' 5000000 ''abcd'' ''abcd''
       (sequencer_run demo_hmac False
          [SubmitPasskey 1000000 ''0000'', SubmitPasskey 2000000 ''1111''] demo_app)))))"
proof -
  have h: "failed_attempts demo_app = 0"
    "\<not> verify_passkey demo_hmac (strip ''0000'') demo_app"
    "\<not> verify_passkey demo_hmac (strip ''1111'') demo_app"
    "4 \<le> length (strip ''abcd'')"
    "demo_hmac ''ffee'' (strip ''1234'') \<noteq> demo_hmac ''ffee'' (strip ''abcd'')"
    by (simp_all add: demo_app_fields verify_demo strip_def isspace_def demo_hmac_def)
  show ?thesis
    using h one_failure_locks_after_recovery [OF h, where mobile = False and tr = 5000000
        and ?t1.0 = 1000000 and ?t2.0 = 2000000 and ?t3.0 = 9000000]
    by (simp del: sequencer_run.simps)
qed

subsection \<open>The recovery answer\<close>

lemma verify_after_save_question:
  "verify_secret_answer hm c (save_secret_question hm s q ans a)
     \<longleftrightarrow> hm s (lower (strip c)) = hm s (lower (strip ans))"
  by (simp add: verify_secret_answer_def save_secret_question_def get_or_def compare_digest_def
      hash_passkey_eq_iff Let_def)

text \<open>
  Claim C5. A candidate answer that equals the stored answer after \<^verbatim>\<open>strip()\<close> and
  \<^verbatim>\<open>lower()\<close> verifies, whatever the salt and the question.
\<close>

theorem recovery_answer_normalised:
  assumes "lower (strip c) = lower (strip ans)"
  shows "verify_secret_answer hm c (save_secret_question hm s q ans a)"
  using assms by (simp add: verify_after_save_question)

text \<open>The example of the claim: three spellings against the stored answer \<^verbatim>\<open>Paris\<close>.\<close>

theorem recovery_answer_normalised_witness:
  "lower (strip ''Paris'') = lower (strip ''Paris'') \<and>
   lower (strip ''paris'') = lower (strip ''Paris'') \<and>
   lower (strip '' paris '') = lower (strip ''Paris'') \<and>
   verify_secret_answer demo_hmac ''Paris''
     (save_secret_question demo_hmac ''c0de'' ''q_birth_city'' ''Paris'' demo_app) \<and>
   verify_secret_answer demo_hmac ''paris''
     (save_secret_question demo_hmac ''c0de'' ''q_birth_city'' ''Paris'' demo_app) \<and>
   verify_secret_answer demo_hmac '' paris ''
     (save_secret_question demo_hmac ''c0de'' ''q_birth_city'' ''Paris'' demo_app)"
proof -
  have h1: "lower (strip ''Paris'') = lower (strip ''Paris'')" by simp
  have h2: "lower (strip ''paris'') = lower (strip ''Paris'')" by code_simp
  have h3: "lower (strip '' paris '') = lower (strip ''Paris'')" by code_simp
  show ?thesis
    using h2 h3
      recovery_answer_normalised [OF h1, of demo_hmac "''c0de''" "''q_birth_city''" demo_app]
      recovery_answer_normalised [OF h2, of demo_hmac "''c0de''" "''q_birth_city''" demo_app]
      recovery_answer_normalised [OF h3, of demo_hmac "''c0de''" "''q_birth_city''" demo_app]
    by simp
qed

subsection \<open>Changing the passkey\<close>

text \<open>
  Claim C7. When the current passkey (stripped) does not verify, the dialog shows the
  wrong-current-passkey message and the state, with the stored salt and hash, is as
  before. When it verifies, the new passkey (stripped) has at least 4 characters and the
  confirmation equals it, the dialog stores what \<^const>\<open>save_passkey\<close> stores for the new
  passkey: the newly drawn salt and the keyed hash of the new passkey under it.
\<close>

theorem change_passkey_fails_closed:
  "(\<not> verify_passkey hm (strip cur_value) a \<longrightarrow>
      change_passkey_save hm new_salt cur_value new_value con_value a = (Some WrongCurrent, a) \<and>
      k_salt (auth (snd (change_passkey_save hm new_salt cur_value new_value con_value a)))
        = k_salt (auth a) \<and>
      k_pass_hash (auth (snd (change_passkey_save hm new_salt cur_value new_value con_value a)))
        = k_pass_hash (auth a)) \<and>
   (verify_passkey hm (strip cur_value) a \<and> 4 \<le> length (strip new_value) \<and>
    strip con_value = strip new_value \<longrightarrow>
      change_passkey_save hm new_salt cur_value new_value con_value a
        = (None, save_passkey hm new_salt (strip new_value) a) \<and>
      k_salt (auth (snd (change_passkey_save hm new_salt cur_value new_value con_value a)))
        = Some new_salt \<and>
      k_pass_hash (auth (snd (change_passkey_save hm new_salt cur_value new_value con_value a)))
        = Some (hash_passkey hm (strip new_value) new_salt))"
  by (simp add: change_passkey_save_def Let_def save_passkey_fields)


text \<open>
  The example: a wrong current passkey, and then the right one with the new passkey
  \<^verbatim>\<open>s3cret\<close>.
\<close>

theorem change_passkey_fails_closed_witness:
  "\<not> verify_passkey demo_hmac (strip ''0000'') demo_app \<and>
   change_passkey_save demo_hmac ''beef'' ''0000'' ''s3cret'' ''s3cret'' demo_app
     = (Some WrongCurrent, demo_app) \<and>
   verify_passkey demo_hmac (strip '' 1234  '') demo_app \<and>
   4 \<le> length (strip ''s3cret '') \<and>
   strip ''s3cret'' = strip ''s3cret '' \<and>
   fst (change_passkey_save demo_hmac ''beef'' '' 1234  '' ''s3cret '' ''s3cret'' demo_app)
     = None \<and>
   k_salt (auth (snd (change_passkey_save demo_hmac ''beef'' '' 1234  '' ''s3cret '' ''s3cret''
     demo_app))) = Some ''beef'' \<and>
   k_pass_hash (auth (snd (change_passkey_save demo_hmac ''beef'' '' 1234  '' ''s3cret ''
     ''s3cret'' demo_app))) = Some (hash_passkey demo_hmac ''s3cret'' ''beef'')"
proof -
  have s: "strip ''s3cret '' = ''s3cret''" "strip ''s3cret'' = ''s3cret''"
    by (simp_all add: strip_def isspace_def)
  show ?thesis
    using demo_wrong_passkey demo_right_passkey s
      change_passkey_fails_closed [of demo_hmac "''0000''" demo_app "''beef''"
        "''s3cret''" "''s3cret''"]
      change_passkey_fails_closed [of demo_hmac "'' 1234  ''" demo_app "''beef''"
        "''s3cret ''" "''s3cret''"]
    by (simp add: save_passkey_fields)
qed

subsection \<open>The verified factors of a session\<close>

lemma check_complete_session: "session (check_complete mobile a) = session a"
  by (simp add: check_complete_def build_page_def Let_def)

lemma next_step_verified: "verified (session (next_step mobile a)) = verified (session a)"
  by (simp add: next_step_def check_complete_session)

lemma set_verified_verified:
  "verified (session (set_verified g a)) f \<longleftrightarrow> f = g \<or> verified (session a) f"
  by (simp add: set_verified_def)

lemma login_verify_passkey_verified:
  "verified (session (login_verify_passkey hm mobile now v a)) f
     \<longleftrightarrow> verified (session a) f \<or>
         (f = Passkey \<and> failed_attempts a < MAX_ATTEMPTS \<and> verify_passkey hm (strip v) a)"
  by (auto simp add: login_verify_passkey_def Let_def build_lockout_page_after_apply
      apply_lockout_fields next_step_verified set_verified_def set_err_text_def)

lemma step_mono:
  "verified (session a) f \<Longrightarrow> verified (session (sequencer_step hm mobile e a)) f"
proof (cases e)
  case (SubmitPasskey now v)
  then show "verified (session a) f \<Longrightarrow> verified (session (sequencer_step hm mobile e a)) f"
    by (simp add: login_verify_passkey_verified)
next
  case StartVoice
  then show "verified (session a) f \<Longrightarrow> verified (session (sequencer_step hm mobile e a)) f"
    by (simp add: login_verify_voice_def Let_def next_step_verified set_verified_verified)
next
  case StartFace
  then show "verified (session a) f \<Longrightarrow> verified (session (sequencer_step hm mobile e a)) f"
    by (simp add: login_verify_face_def Let_def next_step_verified set_verified_verified)
next
  case (StartFingerprint r)
  then show "verified (session a) f \<Longrightarrow> verified (session (sequencer_step hm mobile e a)) f"
    by (cases r)
      (simp_all add: login_verify_fingerprint_def check_complete_session set_verified_verified
        set_err_text_fields)
qed

lemma run_mono:
  "verified (session a) f \<Longrightarrow> verified (session (sequencer_run hm mobile es a)) f"
proof (induction es arbitrary: a)
  case Nil
  then show ?case by simp
next
  case (Cons e es)
  from Cons.prems have "verified (session (sequencer_step hm mobile e a)) f"
    by (rule step_mono)
  then show ?case by (simp add: Cons.IH)
qed












subsection \<open>Whitespace around a passkey\<close>

text \<open>Whitespace added on either side of a text does not change what \<^const>\<open>strip\<close> returns.\<close>

lemma strip_pad:
  assumes "blank l" and "blank r"
  shows "strip (l @ p @ r) = strip p"
proof -
  have l: "\<And>x. x \<in> set l \<Longrightarrow> isspace x" and r: "\<And>x. x \<in> set (rev r) \<Longrightarrow> isspace x"
    using assms by (auto simp: blank_def list_all_iff)
  have 1: "dropWhile isspace (l @ p @ r) = dropWhile isspace (p @ r)"
    using l by (simp add: dropWhile_append2)
  show ?thesis
  proof (cases "\<exists>x \<in> set p. \<not> isspace x")
    case True
    then have "dropWhile isspace (p @ r) = dropWhile isspace p @ r"
      by (auto simp: dropWhile_append1)
    then have "rev (dropWhile isspace (l @ p @ r)) = rev r @ rev (dropWhile isspace p)"
      by (simp add: 1)
    moreover have "dropWhile isspace (rev r @ rev (dropWhile isspace p))
        = dropWhile isspace (rev (dropWhile isspace p))"
      by (rule dropWhile_append2) (rule r)
    ultimately show ?thesis
      by (simp add: strip_def)
  next
    case False
    then have p: "\<And>x. x \<in> set p \<Longrightarrow> isspace x" by blast
    have 2: "dropWhile isspace (p @ r) = []"
      using p r by (auto simp: dropWhile_eq_Nil_conv)
    have 3: "dropWhile isspace p = []"
      using p by (auto simp: dropWhile_eq_Nil_conv)
    show ?thesis unfolding strip_def 1 2 3 by simp
  qed
qed

subsection \<open>The voice and face steps at login\<close>

lemma next_step_events_eq:
  "next_step_events mobile a =
     ShowStep (current_step (session a) + 1) #
     (if verified (session a) Passkey \<and> verified (session a) Voice \<and> verified (session a) Face \<and>
         (if mobile then verified (session a) Fingerprint else True)
      then [Sleep 500, ShowVault] else [])"
  by (cases mobile) (auto simp add: next_step_events_def check_complete_events_def Let_def)

lemma voice_script_eq:
  "Verifying # voice_script 0 voice_steps @ [Succeeded ''voice_success'', Sleep 800] =
     [Verifying,
      Display ''voice_speak_now'' (StepOf 1 3), Sleep 3000,
      Display ''voice_listening'' (SecondsRemaining 10), Sleep 1000,
      Display ''voice_listening'' (SecondsRemaining 9), Sleep 1000,
      Display ''voice_listening'' (SecondsRemaining 8), Sleep 1000,
      Display ''voice_listening'' (SecondsRemaining 7), Sleep 1000,
      Display ''voice_listening'' (SecondsRemaining 6), Sleep 1000,
      Display ''voice_listening'' (SecondsRemaining 5), Sleep 1000,
      Display ''voice_listening'' (SecondsRemaining 4), Sleep 1000,
      Display ''voice_listening'' (SecondsRemaining 3), Sleep 1000,
      Display ''voice_listening'' (SecondsRemaining 2), Sleep 1000,
      Display ''voice_listening'' (SecondsRemaining 1), Sleep 1000,
      Display ''voice_processing'' (StepOf 3 3), Sleep 2000,
      Succeeded ''voice_success'', Sleep 800]"
  by code_simp

lemma face_script_eq:
  "Verifying # face_script 0 face_directions @ [Succeeded ''face_success'', Sleep 800] =
     [Verifying,
      Display ''face_look_center'' (StepOf 1 6), Sleep 1000,
      Display ''face_look_up'' (StepOf 2 6), Sleep 1000,
      Display ''face_look_down'' (StepOf 3 6), Sleep 1000,
      Display ''face_look_left'' (StepOf 4 6), Sleep 1000,
      Display ''face_look_right'' (StepOf 5 6), Sleep 1000,
      Display ''face_capture_complete'' (StepOf 6 6), Sleep 1000,
      Succeeded ''face_success'', Sleep 800]"
  by code_simp

lemma run_append:
  "sequencer_run hm mobile (es @ fs) a = sequencer_run hm mobile fs (sequencer_run hm mobile es a)"
  by (induction es arbitrary: a) simp_all

lemma step_marks:
  "verified (session (sequencer_step hm mobile StartVoice a)) Voice"
  "verified (session (sequencer_step hm mobile StartFace a)) Face"
  by (simp_all add: login_verify_voice_def login_verify_face_def Let_def next_step_verified
      set_verified_verified)

lemma run_marks_voice:
  assumes "StartVoice \<in> set es"
  shows "verified (session (sequencer_run hm mobile es a)) Voice"
proof -
  from assms obtain xs ys where es: "es = xs @ StartVoice # ys"
    by (auto simp: in_set_conv_decomp)
  have "verified (session (sequencer_step hm mobile StartVoice (sequencer_run hm mobile xs a))) Voice"
    by (rule step_marks)
  then have "verified (session (sequencer_run hm mobile ys
      (sequencer_step hm mobile StartVoice (sequencer_run hm mobile xs a)))) Voice"
    by (rule run_mono)
  then show ?thesis
    by (simp only: es run_append sequencer_run.simps)
qed

lemma run_marks_face:
  assumes "StartFace \<in> set es"
  shows "verified (session (sequencer_run hm mobile es a)) Face"
proof -
  from assms obtain xs ys where es: "es = xs @ StartFace # ys"
    by (auto simp: in_set_conv_decomp)
  have "verified (session (sequencer_step hm mobile StartFace (sequencer_run hm mobile xs a))) Face"
    by (rule step_marks)
  then have "verified (session (sequencer_run hm mobile ys
      (sequencer_step hm mobile StartFace (sequencer_run hm mobile xs a)))) Face"
    by (rule run_mono)
  then show ?thesis
    by (simp only: es run_append sequencer_run.simps)
qed

lemma err_text_kept:
  "err_text (session (snd (login_verify_voice mobile a))) = err_text (session a)"
  "err_text (session (snd (login_verify_face mobile a))) = err_text (session a)"
  by (simp_all add: login_verify_voice_def login_verify_face_def Let_def next_step_def
      check_complete_session set_verified_def)

lemma desktop_unlocks:
  assumes "verified (session a) Passkey"
  shows "page (sequencer_run hm False [StartVoice, StartFace] a) = VaultPage"
  using assms
  by (simp add: login_verify_voice_def login_verify_face_def Let_def next_step_def
      check_complete_def build_page_def set_verified_def)


text \<open>
  Claim C9. In every state the voice handler of the verification page ends with the
  voice factor verified and the face handler with the face factor verified, and neither
  writes an error text. Neither takes the outcome of a sensor or of a verification
  function as input. What each does to the screen is its fixed script of prompts and
  sleeps, then the success prompt and a sleep of 0.8 seconds, then the controls of the
  next step, and, when the factor completes the required set, a sleep of half a second
  and the vault page; only what follows the success prompt depends on the state. So in
  every run of handler calls that contains a start of the voice (face) handler, the
  voice (face) factor is verified at the end, and on a desktop a session with the
  passkey verified reaches the vault by the voice step and the face step.
\<close>

theorem voice_and_face_always_succeed:
  "verified (session (snd (login_verify_voice mobile a))) Voice \<and>
   verified (session (snd (login_verify_face mobile a))) Face \<and>
   err_text (session (snd (login_verify_voice mobile a))) = err_text (session a) \<and>
   err_text (session (snd (login_verify_face mobile a))) = err_text (session a) \<and>
   fst (login_verify_voice mobile a) =
     [Verifying,
      Display ''voice_speak_now'' (StepOf 1 3), Sleep 3000,
      Display ''voice_listening'' (SecondsRemaining 10), Sleep 1000,
      Display ''voice_listening'' (SecondsRemaining 9), Sleep 1000,
      Display ''voice_listening'' (SecondsRemaining 8), Sleep 1000,
      Display ''voice_listening'' (SecondsRemaining 7), Sleep 1000,
      Display ''voice_listening'' (SecondsRemaining 6), Sleep 1000,
      Display ''voice_listening'' (SecondsRemaining 5), Sleep 1000,
      Display ''voice_listening'' (SecondsRemaining 4), Sleep 1000,
      Display ''voice_listening'' (SecondsRemaining 3), Sleep 1000,
      Display ''voice_listening'' (SecondsRemaining 2), Sleep 1000,
      Display ''voice_listening'' (SecondsRemaining 1), Sleep 1000,
      Display ''voice_processing'' (StepOf 3 3), Sleep 2000,
      Succeeded ''voice_success'', Sleep 800]
     @ ShowStep (current_step (session a) + 1)
     # (if verified (session a) Passkey \<and> verified (session a) Face \<and>
           (if mobile then verified (session a) Fingerprint else True)
        then [Sleep 500, ShowVault] else []) \<and>
   fst (login_verify_face mobile a) =
     [Verifying,
      Display ''face_look_center'' (StepOf 1 6), Sleep 1000,
      Display ''face_look_up'' (StepOf 2 6), Sleep 1000,
      Display ''face_look_down'' (StepOf 3 6), Sleep 1000,
      Display ''face_look_left'' (StepOf 4 6), Sleep 1000,
      Display ''face_look_right'' (StepOf 5 6), Sleep 1000,
      Display ''face_capture_complete'' (StepOf 6 6), Sleep 1000,
      Succeeded ''face_success'', Sleep 800]
     @ ShowStep (current_step (session a) + 1)
     # (if verified (session a) Passkey \<and> verified (session a) Voice \<and>
           (if mobile then verified (session a) Fingerprint else True)
        then [Sleep 500, ShowVault] else []) \<and>
   (StartVoice \<in> set es \<longrightarrow> verified (session (sequencer_run hm mobile es a)) Voice) \<and>
   (StartFace \<in> set es \<longrightarrow> verified (session (sequencer_run hm mobile es a)) Face) \<and>
   (verified (session a) Passkey \<longrightarrow>
      page (sequencer_run hm False [StartVoice, StartFace] a) = VaultPage)"
proof -
  have v: "verified (session (snd (login_verify_voice mobile a))) Voice"
    "verified (session (snd (login_verify_face mobile a))) Face"
    using step_marks [of hm mobile a] by simp_all
  have ev: "fst (login_verify_voice mobile a) =
     [Verifying,
      Display ''voice_speak_now'' (StepOf 1 3), Sleep 3000,
      Display ''voice_listening'' (SecondsRemaining 10), Sleep 1000,
      Display ''voice_listening'' (SecondsRemaining 9), Sleep 1000,
      Display ''voice_listening'' (SecondsRemaining 8), Sleep 1000,
      Display ''voice_listening'' (SecondsRemaining 7), Sleep 1000,
      Display ''voice_listening'' (SecondsRemaining 6), Sleep 1000,
      Display ''voice_listening'' (SecondsRemaining 5), Sleep 1000,
      Display ''voice_listening'' (SecondsRemaining 4), Sleep 1000,
      Display ''voice_listening'' (SecondsRemaining 3), Sleep 1000,
      Display ''voice_listening'' (SecondsRemaining 2), Sleep 1000,
      Display ''voice_listening'' (SecondsRemaining 1), Sleep 1000,
      Display ''voice_processing'' (StepOf 3 3), Sleep 2000,
      Succeeded ''voice_success'', Sleep 800]
     @ ShowStep (current_step (session a) + 1)
     # (if verified (session a) Passkey \<and> verified (session a) Face \<and>
           (if mobile then verified (session a) Fingerprint else True)
        then [Sleep 500, ShowVault] else [])"
    using voice_script_eq
    by (simp add: login_verify_voice_def Let_def next_step_events_eq set_verified_def)
  have ef: "fst (login_verify_face mobile a) =
     [Verifying,
      Display ''face_look_center'' (StepOf 1 6), Sleep 1000,
      Display ''face_look_up'' (StepOf 2 6), Sleep 1000,
      Display ''face_look_down'' (StepOf 3 6), Sleep 1000,
      Display ''face_look_left'' (StepOf 4 6), Sleep 1000,
      Display ''face_look_right'' (StepOf 5 6), Sleep 1000,
      Display ''face_capture_complete'' (StepOf 6 6), Sleep 1000,
      Succeeded ''face_success'', Sleep 800]
     @ ShowStep (current_step (session a) + 1)
     # (if verified (session a) Passkey \<and> verified (session a) Voice \<and>
           (if mobile then verified (session a) Fingerprint else True)
        then [Sleep 500, ShowVault] else [])"
    using face_script_eq
    by (simp add: login_verify_face_def Let_def next_step_events_eq set_verified_def)
  show ?thesis
    using v err_text_kept [of mobile a] ev ef run_marks_voice [of es hm mobile a]
      run_marks_face [of es hm mobile a] desktop_unlocks [of a hm]
    by blast
qed

text \<open>
  The example: the passkey verified at \<^const>\<open>demo_app\<close>, then the voice step, a wrong
  passkey and the face step.
\<close>

theorem voice_and_face_always_succeed_witness:
  "StartVoice \<in> set [StartVoice, SubmitPasskey 2000000 ''0000'', StartFace] \<and>
   StartFace \<in> set [StartVoice, SubmitPasskey 2000000 ''0000'', StartFace] \<and>
   verified (session (sequencer_run demo_hmac False
      [SubmitPasskey 1000000 '' 1234  ''] demo_app)) Passkey \<and>
   verified (session (sequencer_run demo_hmac False
      [StartVoice, SubmitPasskey 2000000 ''0000'', StartFace]
      (sequencer_run demo_hmac False [SubmitPasskey 1000000 '' 1234  ''] demo_app))) Voice \<and>
   verified (session (sequencer_run demo_hmac False
      [StartVoice, SubmitPasskey 2000000 ''0000'', StartFace]
      (sequencer_run demo_hmac False [SubmitPasskey 1000000 '' 1234  ''] demo_app))) Face \<and>
   page (sequencer_run demo_hmac False [StartVoice, StartFace]
      (sequencer_run demo_hmac False [SubmitPasskey 1000000 '' 1234  ''] demo_app)) = VaultPage"
proof -
  define a1 where "a1 = sequencer_run demo_hmac False [SubmitPasskey 1000000 '' 1234  ''] demo_app"
  have v: "verified (session a1) Passkey"
    using demo_right_passkey
    by (simp add: a1_def login_verify_passkey_verified demo_app_fields MAX_ATTEMPTS_def)
  have m: "StartVoice \<in> set [StartVoice, SubmitPasskey 2000000 ''0000'', StartFace]"
    "StartFace \<in> set [StartVoice, SubmitPasskey 2000000 ''0000'', StartFace]"
    by simp_all
  show ?thesis
    using v m
      voice_and_face_always_succeed [where mobile = False and a = a1 and hm = demo_hmac
        and es = "[StartVoice, SubmitPasskey 2000000 ''0000'', StartFace]"]
    unfolding a1_def by (simp del: sequencer_run.simps)
qed

subsection \<open>Every passkey form strips its input\<close>

lemma launch_fresh:
  assumes "k_pass_hash st = Some h" and "h \<noteq> []" and "k_lockout_until st = None"
  shows "launch now st =
    (init_app st)\<lparr>failed_attempts := get_or (k_failed_attempts st) 0,
                  page := VerificationPage, session := new_session\<rparr>"
  using assms
  by (simp add: launch_def main_def init_app_def has_passkey_def is_locked_out_def Let_def
      build_verification_page.simps)

lemma complete_setup_store:
  assumes "sd_passkey (setup_data a) = Some p" and "sd_question (setup_data a) = Some q"
    and "sd_answer (setup_data a) = Some ans"
  shows "fst (complete_setup hm s1 s2 a) = None"
    and "page (snd (complete_setup hm s1 s2 a)) = VaultPage"
    and "k_salt (auth (snd (complete_setup hm s1 s2 a))) = Some s1"
    and "k_pass_hash (auth (snd (complete_setup hm s1 s2 a))) = Some (hash_passkey hm p s1)"
    and "k_lockout_until (auth (snd (complete_setup hm s1 s2 a))) = k_lockout_until (auth a)"
    and "k_failed_attempts (auth (snd (complete_setup hm s1 s2 a))) = k_failed_attempts (auth a)"
  using assms
  by (simp_all add: complete_setup_def save_passkey_def save_secret_question_def build_page_def
      Let_def)

lemma demo_setup_fields:
  "sd_passkey (setup_data demo_setup) = Some ''1234''"
  "sd_question (setup_data demo_setup) = Some ''q_first_pet_name''"
  "sd_answer (setup_data demo_setup) = Some ''Rex''"
  "k_lockout_until (auth demo_setup) = None"
  "k_failed_attempts (auth demo_setup) = None"
  "page demo_setup = SetupStep3"
  by (simp_all add: demo_setup_def setup_step2_next_def setup_step1_next_def launch_def main_def
      init_app_def clear_all_def has_passkey_def build_setup_step1_def build_setup_step2_def
      build_setup_step3_def strip_def isspace_def Let_def)


lemma login_marks_iff:
  assumes "failed_attempts a < MAX_ATTEMPTS"
  shows "verified (session (login_verify_passkey hm mobile now v a)) Passkey
     \<longleftrightarrow> verified (session a) Passkey \<or> verify_passkey hm (strip v) a"
  using assms by (simp add: login_verify_passkey_verified)

lemma reset_result:
  assumes "4 \<le> length (strip p)" and "strip c = strip p"
  shows "reset_passkey_save hm s now p c a
     = (None, (clear_lockout (save_passkey hm s (strip p) a))
               \<lparr>page := VerificationPage, session := new_session\<rparr>)"
  using assms build_verification_page_after_clear [of now "save_passkey hm s (strip p) a"]
  by (simp add: reset_passkey_save_def Let_def)

lemma verify_after_reset:
  "verify_passkey hm q ((clear_lockout (save_passkey hm s p a))
      \<lparr>page := VerificationPage, session := new_session\<rparr>) \<longleftrightarrow> hm s q = hm s p"
proof -
  have "verify_passkey hm q ((clear_lockout (save_passkey hm s p a))
      \<lparr>page := VerificationPage, session := new_session\<rparr>)
      = verify_passkey hm q (save_passkey hm s p a)"
    by (rule verify_passkey_cong) (simp_all add: clear_lockout_fields)
  then show ?thesis by (simp add: verify_after_save)
qed

text \<open>
  Claim C10. Let \<open>l1\<close>, \<open>r1\<close>, \<open>l2\<close>, \<open>r2\<close>, \<open>l3\<close>, \<open>r3\<close> be whitespace. At each of
  the four forms (first setup step, login, change of passkey, reset after recovery),
  entering the texts with whitespace around them has the same result as entering the
  texts themselves. What is kept, stored and checked is the stripped text: the first
  setup step keeps \<open>strip p\<close>; the reset saves the passkey \<open>strip p\<close> and clears the
  lockout; the change verifies the stripped current passkey, shows the
  wrong-current-passkey message when it does not verify, and otherwise saves
  \<open>strip p\<close>; the login marks the passkey factor exactly when the stripped text
  verifies (or the factor was marked before). So a candidate with whitespace around it
  is verified at login against a passkey stored by the reset, by the change, or by the
  setup followed by a new start of the application.
\<close>

theorem passkey_entries_strip_whitespace:
  assumes b1: "blank l1" "blank r1" and b2: "blank l2" "blank r2" and b3: "blank l3" "blank r3"
  shows "setup_step1_next (l1 @ p @ r1) (l2 @ c @ r2) a = setup_step1_next p c a \<and>
         login_verify_passkey hm mobile now (l1 @ p @ r1) a
           = login_verify_passkey hm mobile now p a \<and>
         change_passkey_save hm s (l1 @ cur @ r1) (l2 @ p @ r2) (l3 @ c @ r3) a
           = change_passkey_save hm s cur p c a \<and>
         reset_passkey_save hm s now (l1 @ p @ r1) (l2 @ c @ r2) a
           = reset_passkey_save hm s now p c a \<and>
         (4 \<le> length (strip p) \<longrightarrow>
            setup_step1_next (l1 @ p @ r1) (l2 @ p @ r2) a
              = (None, build_setup_step2
                   (a\<lparr>setup_data := (setup_data a)\<lparr>sd_passkey := Some (strip p)\<rparr>\<rparr>))) \<and>
         (4 \<le> length (strip p) \<longrightarrow>
            reset_passkey_save hm s now (l1 @ p @ r1) (l2 @ p @ r2) a
              = (None, build_verification_page now
                   (clear_lockout (save_passkey hm s (strip p) a)))) \<and>
         (verify_passkey hm (strip cur) a \<and> 4 \<le> length (strip p) \<longrightarrow>
            change_passkey_save hm s (l1 @ cur @ r1) (l2 @ p @ r2) (l3 @ p @ r3) a
              = (None, save_passkey hm s (strip p) a)) \<and>
         (\<not> verify_passkey hm (strip cur) a \<longrightarrow>
            change_passkey_save hm s (l1 @ cur @ r1) (l2 @ p @ r2) (l3 @ c @ r3) a
              = (Some WrongCurrent, a)) \<and>
         (failed_attempts a < MAX_ATTEMPTS \<longrightarrow>
            verified (session (login_verify_passkey hm mobile now (l1 @ p @ r1) a)) Passkey
              = (verified (session a) Passkey \<or> verify_passkey hm (strip p) a)) \<and>
         (failed_attempts a < MAX_ATTEMPTS \<and> 4 \<le> length (strip p) \<longrightarrow>
            verified (session (login_verify_passkey hm mobile t (l3 @ p @ r3)
              (snd (reset_passkey_save hm s now (l1 @ p @ r1) (l2 @ p @ r2) a)))) Passkey) \<and>
         (failed_attempts a < MAX_ATTEMPTS \<and> verify_passkey hm (strip cur) a \<and>
          4 \<le> length (strip p) \<longrightarrow>
            verified (session (login_verify_passkey hm mobile t (l1 @ p @ r1)
              (snd (change_passkey_save hm s (l1 @ cur @ r1) (l2 @ p @ r2) (l3 @ p @ r3) a))))
              Passkey) \<and>
         (sd_passkey (setup_data a) = Some (strip p) \<and> sd_question (setup_data a) = Some q \<and>
          sd_answer (setup_data a) = Some ans \<and> k_lockout_until (auth a) = None \<and>
          k_failed_attempts (auth a) = None \<longrightarrow>
            verified (session (login_verify_passkey hm mobile now (l1 @ p @ r1)
              (launch t0 (auth (snd (complete_setup hm s s' a)))))) Passkey)"
proof -
  note sp1 = strip_pad [OF b1] and sp2 = strip_pad [OF b2] and sp3 = strip_pad [OF b3]
  have 1: "setup_step1_next (l1 @ p @ r1) (l2 @ c @ r2) a = setup_step1_next p c a"
    by (simp add: setup_step1_next_def sp1 sp2)
  have 2: "login_verify_passkey hm mobile now (l1 @ p @ r1) a
      = login_verify_passkey hm mobile now p a"
    by (simp add: login_verify_passkey_def sp1)
  have 3: "change_passkey_save hm s (l1 @ cur @ r1) (l2 @ p @ r2) (l3 @ c @ r3) a
      = change_passkey_save hm s cur p c a" for c
    by (simp add: change_passkey_save_def sp1 sp2 sp3)
  have 4: "reset_passkey_save hm s now (l1 @ p @ r1) (l2 @ c @ r2) a
      = reset_passkey_save hm s now p c a" for c
    by (simp add: reset_passkey_save_def sp1 sp2)
  have 5: "setup_step1_next (l1 @ p @ r1) (l2 @ p @ r2) a
      = (None, build_setup_step2 (a\<lparr>setup_data := (setup_data a)\<lparr>sd_passkey := Some (strip p)\<rparr>\<rparr>))"
    if "4 \<le> length (strip p)"
    using that by (simp add: setup_step1_next_def sp1 sp2 Let_def)
  have 6: "reset_passkey_save hm s now (l1 @ p @ r1) (l2 @ p @ r2) a
      = (None, build_verification_page now (clear_lockout (save_passkey hm s (strip p) a)))"
    if "4 \<le> length (strip p)"
    using that by (simp add: reset_passkey_save_def sp1 sp2 Let_def)
  have 7: "change_passkey_save hm s (l1 @ cur @ r1) (l2 @ p @ r2) (l3 @ p @ r3) a
      = (None, save_passkey hm s (strip p) a)"
    if "verify_passkey hm (strip cur) a \<and> 4 \<le> length (strip p)"
    using that by (simp add: change_passkey_save_def sp1 sp2 sp3 Let_def)
  have 8: "change_passkey_save hm s (l1 @ cur @ r1) (l2 @ p @ r2) (l3 @ c @ r3) a
      = (Some WrongCurrent, a)"
    if "\<not> verify_passkey hm (strip cur) a"
    using that by (simp add: change_passkey_save_def sp1 Let_def)
  have 9: "verified (session (login_verify_passkey hm mobile now (l1 @ p @ r1) a)) Passkey
      = (verified (session a) Passkey \<or> verify_passkey hm (strip p) a)"
    if "failed_attempts a < MAX_ATTEMPTS"
    using login_marks_iff [OF that, of hm mobile now "l1 @ p @ r1"] by (simp add: sp1)
  have 10: "verified (session (login_verify_passkey hm mobile t (l3 @ p @ r3)
      (snd (reset_passkey_save hm s now (l1 @ p @ r1) (l2 @ p @ r2) a)))) Passkey"
    if h: "failed_attempts a < MAX_ATTEMPTS \<and> 4 \<le> length (strip p)"
  proof -
    define b where "b = (clear_lockout (save_passkey hm s (strip p) a))
        \<lparr>page := VerificationPage, session := new_session\<rparr>"
    have r: "reset_passkey_save hm s now (l1 @ p @ r1) (l2 @ p @ r2) a = (None, b)"
      using h reset_result [of p p hm s now a] by (simp add: 4 b_def)
    have fb: "failed_attempts b < MAX_ATTEMPTS"
      using h by (simp add: b_def clear_lockout_fields save_passkey_fields)
    have "verify_passkey hm (strip (l3 @ p @ r3)) b"
      unfolding b_def by (simp add: verify_after_reset sp3)
    then show ?thesis
      using login_marks_iff [OF fb, of hm mobile t "l3 @ p @ r3"] by (simp add: r)
  qed
  have 11: "verified (session (login_verify_passkey hm mobile t (l1 @ p @ r1)
      (snd (change_passkey_save hm s (l1 @ cur @ r1) (l2 @ p @ r2) (l3 @ p @ r3) a)))) Passkey"
    if h: "failed_attempts a < MAX_ATTEMPTS \<and> verify_passkey hm (strip cur) a \<and>
        4 \<le> length (strip p)"
  proof -
    define b where "b = save_passkey hm s (strip p) a"
    have r: "change_passkey_save hm s (l1 @ cur @ r1) (l2 @ p @ r2) (l3 @ p @ r3) a = (None, b)"
      using h 7 by (simp add: b_def)
    have fb: "failed_attempts b < MAX_ATTEMPTS"
      using h by (simp add: b_def save_passkey_fields)
    have "verify_passkey hm (strip (l1 @ p @ r1)) b"
      unfolding b_def by (simp add: verify_after_save sp1)
    then show ?thesis
      using login_marks_iff [OF fb, of hm mobile t "l1 @ p @ r1"] by (simp add: r)
  qed
  have 12: "verified (session (login_verify_passkey hm mobile now (l1 @ p @ r1)
              (launch t0 (auth (snd (complete_setup hm s s' a)))))) Passkey"
    if h: "sd_passkey (setup_data a) = Some (strip p) \<and> sd_question (setup_data a) = Some q \<and>
          sd_answer (setup_data a) = Some ans \<and> k_lockout_until (auth a) = None \<and>
          k_failed_attempts (auth a) = None"
  proof -
    define st where "st = auth (snd (complete_setup hm s s' a))"
    from h have sd: "sd_passkey (setup_data a) = Some (strip p)"
      "sd_question (setup_data a) = Some q" "sd_answer (setup_data a) = Some ans"
      by simp_all
    note cs = complete_setup_store [OF sd, of hm s s', folded st_def]
    have ph: "k_pass_hash st = Some (hash_passkey hm (strip p) s)" by (rule cs(4))
    have ne: "hash_passkey hm (strip p) s \<noteq> []"
      by (simp add: hash_passkey_def hexdigest_nonempty)
    have lu: "k_lockout_until st = None" using cs(5) h by simp
    note lf = launch_fresh [OF ph ne lu, of t0]
    have fa: "failed_attempts (launch t0 st) < MAX_ATTEMPTS"
      using cs(6) h by (simp add: lf get_or_def MAX_ATTEMPTS_def)
    have "verify_passkey hm (strip (l1 @ p @ r1)) (launch t0 st)"
      by (simp add: lf sp1 verify_passkey_def init_app_def cs get_or_def compare_digest_def)
    then show ?thesis
      using fa unfolding st_def [symmetric] by (simp add: login_verify_passkey_verified)
  qed
  from 1 2 3 4 5 6 7 8 9 10 11 12 show ?thesis by blast
qed


text \<open>
  The example, with a blank before and two after the first field, one after the second
  and one before the third: the login at \<^const>\<open>demo_app\<close>, a change with a wrong and
  with the right current passkey, a reset, and the setup \<^const>\<open>demo_setup\<close>.
\<close>

theorem passkey_entries_strip_whitespace_witness:
  "blank '' '' \<and> blank ''  '' \<and> blank [] \<and>
   failed_attempts demo_app < MAX_ATTEMPTS \<and>
   verify_passkey demo_hmac (strip ''1234'') demo_app \<and>
   \<not> verify_passkey demo_hmac (strip ''0000'') demo_app \<and>
   4 \<le> length (strip ''s3cret'') \<and>
   verified (session (login_verify_passkey demo_hmac False 1000000 ('' '' @ ''1234'' @ ''  '')
      demo_app)) Passkey \<and>
   change_passkey_save demo_hmac ''beef'' ('' '' @ ''0000'' @ ''  '') ([] @ ''s3cret'' @ '' '')
      ('' '' @ ''s3cret'' @ []) demo_app = (Some WrongCurrent, demo_app) \<and>
   change_passkey_save demo_hmac ''beef'' ('' '' @ ''1234'' @ ''  '') ([] @ ''s3cret'' @ '' '')
      ('' '' @ ''s3cret'' @ []) demo_app
      = (None, save_passkey demo_hmac ''beef'' (strip ''s3cret'') demo_app) \<and>
   verified (session (login_verify_passkey demo_hmac False 2000000 ('' '' @ ''s3cret'' @ ''  '')
      (snd (change_passkey_save demo_hmac ''beef'' ('' '' @ ''1234'' @ ''  '')
         ([] @ ''s3cret'' @ '' '') ('' '' @ ''s3cret'' @ []) demo_app)))) Passkey \<and>
   reset_passkey_save demo_hmac ''beef'' 1500000 ('' '' @ ''s3cret'' @ ''  '')
      ([] @ ''s3cret'' @ '' '') demo_app
      = (None, build_verification_page 1500000
           (clear_lockout (save_passkey demo_hmac ''beef'' (strip ''s3cret'') demo_app))) \<and>
   k_pass_hash (auth (snd (reset_passkey_save demo_hmac ''beef'' 1500000
      ('' '' @ ''s3cret'' @ ''  '') ([] @ ''s3cret'' @ '' '') demo_app)))
      = Some (hash_passkey demo_hmac ''s3cret'' ''beef'') \<and>
   verified (session (login_verify_passkey demo_hmac False 2000000 ('' '' @ ''s3cret'' @ [])
      (snd (reset_passkey_save demo_hmac ''beef'' 1500000 ('' '' @ ''s3cret'' @ ''  '')
         ([] @ ''s3cret'' @ '' '') demo_app)))) Passkey \<and>
   4 \<le> length (strip ''1234'') \<and>
   sd_passkey (setup_data (snd (setup_step1_next ('' '' @ ''1234'' @ ''  '')
      ([] @ ''1234'' @ '' '') (launch 0 clear_all)))) = Some ''1234'' \<and>
   sd_passkey (setup_data demo_setup) = Some (strip ''1234'') \<and>
   sd_question (setup_data demo_setup) = Some ''q_first_pet_name'' \<and>
   sd_answer (setup_data demo_setup) = Some ''Rex'' \<and>
   k_lockout_until (auth demo_setup) = None \<and>
   k_failed_attempts (auth demo_setup) = None \<and>
   verified (session (login_verify_passkey demo_hmac False 1000000 ('' '' @ ''1234'' @ ''  '')
     (launch 500000 (auth (snd (complete_setup demo_hmac ''a1b2'' ''c0de'' demo_setup))))))
     Passkey"
proof -
  have b: "blank '' ''" "blank ''  ''" "blank []" "blank '' ''" "blank '' ''" "blank []"
    by (simp_all add: blank_def isspace_def)
  have s: "strip ''1234'' = ''1234''" "strip ''s3cret'' = ''s3cret''"
    by (simp_all add: strip_def isspace_def)
  have d1: "failed_attempts demo_app < MAX_ATTEMPTS"
    by (simp add: demo_app_fields MAX_ATTEMPTS_def)
  have d2: "verify_passkey demo_hmac (strip ''1234'') demo_app"
    by (simp add: verify_demo s)
  have d3: "\<not> verify_passkey demo_hmac (strip ''0000'') demo_app"
    by (rule demo_wrong_passkey)
  have d4: "4 \<le> length (strip ''s3cret'')" "4 \<le> length (strip ''1234'')"
    by (simp_all add: s)
  have d5: "sd_passkey (setup_data demo_setup) = Some (strip ''1234'')"
    "sd_question (setup_data demo_setup) = Some ''q_first_pet_name''"
    "sd_answer (setup_data demo_setup) = Some ''Rex''"
    "k_lockout_until (auth demo_setup) = None"
    "k_failed_attempts (auth demo_setup) = None"
    by (simp_all add: demo_setup_fields s)
  note A = passkey_entries_strip_whitespace [OF b, where p = "''1234''" and c = "''1234''"
        and cur = "''1234''" and a = demo_app and hm = demo_hmac and mobile = False
        and now = 1000000 and s = "''a1b2''"]
  note B = passkey_entries_strip_whitespace [OF b, where p = "''s3cret''" and c = "''s3cret''"
        and cur = "''1234''" and a = demo_app and hm = demo_hmac and mobile = False
        and now = 1500000 and t = 2000000 and s = "''beef''"]
  note C = passkey_entries_strip_whitespace [OF b, where p = "''s3cret''" and c = "''s3cret''"
        and cur = "''0000''" and a = demo_app and hm = demo_hmac and mobile = False
        and now = 1500000 and t = 2000000 and s = "''beef''"]
  note D = passkey_entries_strip_whitespace [OF b, where p = "''1234''" and c = "''1234''"
        and a = "launch 0 clear_all" and hm = demo_hmac]
  note E = passkey_entries_strip_whitespace [OF b, where p = "''1234''" and c = "''1234''"
        and cur = "''1234''" and a = demo_setup and hm = demo_hmac and mobile = False
        and now = 1000000 and s = "''a1b2''" and s' = "''c0de''" and ?t0.0 = 500000
        and q = "''q_first_pet_name''" and ans = "''Rex''"]
  have 1: "verified (session (login_verify_passkey demo_hmac False 1000000
      ('' '' @ ''1234'' @ ''  '') demo_app)) Passkey"
    using A d1 d2 by blast
  have 2: "change_passkey_save demo_hmac ''beef'' ('' '' @ ''0000'' @ ''  '')
      ([] @ ''s3cret'' @ '' '') ('' '' @ ''s3cret'' @ []) demo_app = (Some WrongCurrent, demo_app)"
    using C d3 by blast
  have 3: "change_passkey_save demo_hmac ''beef'' ('' '' @ ''1234'' @ ''  '')
      ([] @ ''s3cret'' @ '' '') ('' '' @ ''s3cret'' @ []) demo_app
      = (None, save_passkey demo_hmac ''beef'' (strip ''s3cret'') demo_app)"
    using B d2 d4 by blast
  have 4: "verified (session (login_verify_passkey demo_hmac False 2000000
      ('' '' @ ''s3cret'' @ ''  '')
      (snd (change_passkey_save demo_hmac ''beef'' ('' '' @ ''1234'' @ ''  '')
         ([] @ ''s3cret'' @ '' '') ('' '' @ ''s3cret'' @ []) demo_app)))) Passkey"
    using B d1 d2 d4 by blast
  have 5: "reset_passkey_save demo_hmac ''beef'' 1500000 ('' '' @ ''s3cret'' @ ''  '')
      ([] @ ''s3cret'' @ '' '') demo_app
      = (None, build_verification_page 1500000
           (clear_lockout (save_passkey demo_hmac ''beef'' (strip ''s3cret'') demo_app)))"
    using B d4 by blast
  have 6: "k_pass_hash (auth (snd (reset_passkey_save demo_hmac ''beef'' 1500000
      ('' '' @ ''s3cret'' @ ''  '') ([] @ ''s3cret'' @ '' '') demo_app)))
      = Some (hash_passkey demo_hmac ''s3cret'' ''beef'')"
    by (simp only: 5 snd_conv build_verification_page_after_clear)
      (simp add: clear_lockout_fields save_passkey_fields s)
  have 7: "verified (session (login_verify_passkey demo_hmac False 2000000
      ('' '' @ ''s3cret'' @ [])
      (snd (reset_passkey_save demo_hmac ''beef'' 1500000 ('' '' @ ''s3cret'' @ ''  '')
         ([] @ ''s3cret'' @ '' '') demo_app)))) Passkey"
    using B d1 d4 by blast
  have "setup_step1_next ('' '' @ ''1234'' @ ''  '') ([] @ ''1234'' @ '' '') (launch 0 clear_all)
      = (None, build_setup_step2 ((launch 0 clear_all)\<lparr>setup_data :=
           (setup_data (launch 0 clear_all))\<lparr>sd_passkey := Some (strip ''1234'')\<rparr>\<rparr>))"
    using D d4 by blast
  then have 8: "sd_passkey (setup_data (snd (setup_step1_next ('' '' @ ''1234'' @ ''  '')
      ([] @ ''1234'' @ '' '') (launch 0 clear_all)))) = Some ''1234''"
    by (simp only: snd_conv) (simp add: build_setup_step2_def s)
  have 9: "verified (session (login_verify_passkey demo_hmac False 1000000
     ('' '' @ ''1234'' @ ''  '')
     (launch 500000 (auth (snd (complete_setup demo_hmac ''a1b2'' ''c0de'' demo_setup))))))
     Passkey"
    using E d5 by blast
  from b(1,2,3) d1 d2 d3 d4 1 2 3 4 5 6 7 8 d5 9 show ?thesis
    by blast
qed

end
